theory Spec2Isabelle
  imports Main "HOL-Library.Sublist" "HOL-Library.AList"
begin

section \<open>Python values and exceptions\<close>

text \<open>
  The registry of \<^verbatim>\<open>datamanager.py\<close> is dynamically typed.  The elements that travel
  through it are modelled by a small universe: integers (unbounded, as in Python), strings,
  \<^verbatim>\<open>None\<close>, and opaque objects \<open>PObj\<close> that are hashable, not iterable, and on which
  \<^verbatim>\<open>int()\<close> raises \<^verbatim>\<open>TypeError\<close>.  On this universe Python's \<^verbatim>\<open>==\<close> is structural
  equality.  Floats and booleans are left out of the universe.
\<close>

datatype pyval = PInt int | PStr string | PNone | PObj nat

text \<open>
  Exceptions are values.  All of them are subclasses of Python's \<^verbatim>\<open>Exception\<close>, so each is
  caught by \<^verbatim>\<open>except Exception\<close>; \<open>OtherError\<close> stands for whatever the file layer raises.
\<close>

datatype exn = TypeError | ValueError | KeyError | AttributeError | OtherError string

section \<open>Strings: \<^verbatim>\<open>int()\<close>, \<^verbatim>\<open>str()\<close>, \<^verbatim>\<open>str.replace\<close>, paths\<close>

text \<open>
  The characters that \<^verbatim>\<open>int()\<close> skips at both ends of a string: tab, line feed, vertical
  tab, form feed, carriage return, space, and (code points 133 and 160) next line and
  no-break space.  The separators 28 to 31 are not skipped.
\<close>

definition is_space :: "char \<Rightarrow> bool" where
  "is_space c = (of_char c \<in> {9, 10, 11, 12, 13, 32, 133, 160 :: nat})"

definition is_digit :: "char \<Rightarrow> bool" where
  "is_digit c = (48 \<le> (of_char c :: nat) \<and> (of_char c :: nat) \<le> 57)"

definition digit_val :: "char \<Rightarrow> nat" where
  "digit_val c = of_char c - 48"

definition digit_char :: "nat \<Rightarrow> char" where
  "digit_char d = ''0123456789'' ! d"

definition strip :: "string \<Rightarrow> string" where
  "strip s = rev (dropWhile is_space (rev (dropWhile is_space s)))"

text \<open>Decimal digits with single underscores between them (the literal syntax \<^verbatim>\<open>int()\<close> accepts).\<close>

fun body_ok :: "string \<Rightarrow> bool" where
  "body_ok [] = False"
| "body_ok [c] = is_digit c"
| "body_ok (c # d # cs) =
     (is_digit c \<and> (if d = CHR ''_'' then body_ok cs else body_ok (d # cs)))"

definition nat_of_digits :: "string \<Rightarrow> nat" where
  "nat_of_digits ds = foldl (\<lambda>a c. 10 * a + digit_val c) 0 ds"

definition body_val :: "string \<Rightarrow> int option" where
  "body_val b =
     (if body_ok b then Some (int (nat_of_digits (filter (\<lambda>c. c \<noteq> CHR ''_'') b))) else None)"

text \<open>\<^verbatim>\<open>int(s)\<close> for a string: \<open>None\<close> is \<^verbatim>\<open>ValueError\<close>.\<close>

definition int_of_str :: "string \<Rightarrow> int option" where
  "int_of_str s =
     (case strip s of
        [] \<Rightarrow> None
      | c # cs \<Rightarrow>
          (if c = CHR ''-'' then map_option uminus (body_val cs)
           else if c = CHR ''+'' then body_val cs
           else body_val (c # cs)))"

text \<open>\<^verbatim>\<open>int(i)\<close> on a value of the universe.\<close>

fun py_int :: "pyval \<Rightarrow> exn + int" where
  "py_int (PInt n) = Inr n"
| "py_int (PStr s) = (case int_of_str s of None \<Rightarrow> Inl ValueError | Some n \<Rightarrow> Inr n)"
| "py_int PNone = Inl TypeError"
| "py_int (PObj _) = Inl TypeError"

text \<open>\<^verbatim>\<open>str(n)\<close> for an integer.\<close>

fun str_nat :: "nat \<Rightarrow> string" where
  "str_nat n = (if n < 10 then [digit_char n] else str_nat (n div 10) @ [digit_char (n mod 10)])"

declare str_nat.simps [simp del]

definition str_int :: "int \<Rightarrow> string" where
  "str_int i = (if i < 0 then CHR ''-'' # str_nat (nat (- i)) else str_nat (nat i))"

text \<open>
  \<^verbatim>\<open>s.replace(old, new)\<close>: occurrences are found left to right and do not overlap; with an
  empty \<open>old\<close> the replacement is put before every character and at the end.
\<close>

fun replace :: "string \<Rightarrow> string \<Rightarrow> string \<Rightarrow> string" where
  "replace old new [] = (if old = [] then new else [])"
| "replace old new (c # cs) =
     (if old = [] then new @ c # replace old new cs
      else if prefix old (c # cs) then new @ replace old new (drop (length old) (c # cs))
      else c # replace old new cs)"

text \<open>\<^verbatim>\<open>name.split('/')\<close>.\<close>

fun split_on :: "char \<Rightarrow> string \<Rightarrow> string list" where
  "split_on sep [] = [[]]"
| "split_on sep (c # cs) =
     (if c = sep then [] # split_on sep cs
      else (case split_on sep cs of [] \<Rightarrow> [[c]] | p # ps \<Rightarrow> (c # p) # ps))"

text \<open>\<^verbatim>\<open>os.path.split\<close> and \<^verbatim>\<open>os.path.join\<close> (POSIX).\<close>

definition path_split :: "string \<Rightarrow> string \<times> string" where
  "path_split p =
     (let tail = rev (takeWhile (\<lambda>c. c \<noteq> CHR ''/'') (rev p));
          head = take (length p - length tail) p;
          head' = (if head \<noteq> [] \<and> head \<noteq> replicate (length head) CHR ''/''
                   then rev (dropWhile (\<lambda>c. c = CHR ''/'') (rev head)) else head)
      in (head', tail))"

definition path_join2 :: "string \<Rightarrow> string \<Rightarrow> string" where
  "path_join2 a b =
     (if b \<noteq> [] \<and> hd b = CHR ''/'' then b
      else if a = [] \<or> last a = CHR ''/'' then a @ b
      else a @ ''/'' @ b)"

definition path_join :: "string \<Rightarrow> string list \<Rightarrow> string" where
  "path_join a ps = foldl path_join2 a ps"

section \<open>Shapes of data\<close>

text \<open>
  A Python \<^verbatim>\<open>set\<close> is the list of its members in iteration order, a \<^verbatim>\<open>dict\<close> an
  association list in insertion order.  \<open>PyAtom\<close> is any scalar (\<^verbatim>\<open>None\<close> included) and
  \<open>PyType\<close> a class object passed where an instance is expected.

  The four disk-backed containers are represented by what the registry gives their
  constructors: the seeding iterable (or keyword arguments) and the directory.
  \<^verbatim>\<open>Deque\<close> and \<^verbatim>\<open>Index\<close> belong to the \<^verbatim>\<open>diskcache\<close> library; \<^verbatim>\<open>CacheSet\<close> and
  \<^verbatim>\<open>EvictingIndex\<close> are defined in \<^verbatim>\<open>datamanager/cachetypes.py\<close>, which is not among the
  available sources.  What an earlier run left in a container's directory belongs to the
  storage engine and is not represented.
\<close>

type_synonym kwargs = "(string \<times> pyval) list"

datatype pydata =
    PySet "pyval list"
  | PyList "pyval list"
  | PyDict "(pyval \<times> pyval) list"
  | PyAtom pyval
  | PyType
  | CacheSet "pyval list" string
  | Deque "pyval list" string
  | Index "(pyval \<times> pyval) list" string
  | EvictingIndex string "(pyval \<times> pyval) list"

abbreviation py_None :: pydata where
  "py_None \<equiv> PyAtom PNone"

text \<open>
  Modelled from the spec: the containers of the missing \<^verbatim>\<open>cachetypes.py\<close> (\<^verbatim>\<open>CacheSet\<close>,
  \<^verbatim>\<open>EvictingIndex\<close>) and, beside them, the two of \<^verbatim>\<open>diskcache\<close>.  Each "behaves like its
  in-memory analogue": a container is true when it holds something.
\<close>

fun container_truthy :: "pydata \<Rightarrow> bool" where
  "container_truthy (CacheSet xs _) = (xs \<noteq> [])"
| "container_truthy (Deque xs _) = (xs \<noteq> [])"
| "container_truthy (Index kvs _) = (kvs \<noteq> [])"
| "container_truthy (EvictingIndex _ kvs) = (kvs \<noteq> [])"
| "container_truthy _ = True"

text \<open>
  Modelled from the spec: iterating a container.  A set container ("unique scalar
  members") yields each member once, a sequence container its elements in order, a map
  container its keys.
\<close>

fun container_iter :: "pydata \<Rightarrow> exn + pyval list" where
  "container_iter (CacheSet xs _) = Inr (remdups xs)"
| "container_iter (Deque xs _) = Inr xs"
| "container_iter (Index kvs _) = Inr (map fst kvs)"
| "container_iter (EvictingIndex _ kvs) = Inr (map fst kvs)"
| "container_iter _ = Inl TypeError"

text \<open>Modelled from the spec: the items of a map container.\<close>

fun container_items :: "pydata \<Rightarrow> exn + (pyval \<times> pyval) list" where
  "container_items (Index kvs _) = Inr kvs"
| "container_items (EvictingIndex _ kvs) = Inr kvs"
| "container_items _ = Inl TypeError"

text \<open>Truth value of an object (\<^verbatim>\<open>if x:\<close>, \<^verbatim>\<open>x or y\<close>).\<close>

fun truthy :: "pydata \<Rightarrow> bool" where
  "truthy (PySet xs) = (xs \<noteq> [])"
| "truthy (PyList xs) = (xs \<noteq> [])"
| "truthy (PyDict kvs) = (kvs \<noteq> [])"
| "truthy (PyAtom (PInt n)) = (n \<noteq> 0)"
| "truthy (PyAtom (PStr s)) = (s \<noteq> [])"
| "truthy (PyAtom PNone) = False"
| "truthy (PyAtom (PObj _)) = True"
| "truthy PyType = True"
| "truthy c = container_truthy c"

text \<open>
  Iterating an object (\<^verbatim>\<open>for i in x\<close>, \<^verbatim>\<open>list(x)\<close>): a mapping yields its keys, a string
  its characters, a set container each member once; a scalar or a class raises
  \<^verbatim>\<open>TypeError\<close>.
\<close>

fun py_iter :: "pydata \<Rightarrow> exn + pyval list" where
  "py_iter (PySet xs) = Inr xs"
| "py_iter (PyList xs) = Inr xs"
| "py_iter (PyDict kvs) = Inr (map fst kvs)"
| "py_iter (PyAtom (PStr s)) = Inr (map (\<lambda>c. PStr [c]) s)"
| "py_iter (PyAtom _) = Inl TypeError"
| "py_iter PyType = Inl TypeError"
| "py_iter c = container_iter c"

text \<open>\<^verbatim>\<open>isinstance(x, Iterable)\<close>.\<close>

definition is_iterable :: "pydata \<Rightarrow> bool" where
  "is_iterable x = (case py_iter x of Inl _ \<Rightarrow> False | Inr _ \<Rightarrow> True)"

text \<open>\<^verbatim>\<open>isinstance(x, set)\<close>, \<^verbatim>\<open>isinstance(x, list)\<close>, \<^verbatim>\<open>isinstance(x, dict)\<close>.\<close>

fun is_set :: "pydata \<Rightarrow> bool" where
  "is_set (PySet _) = True"
| "is_set _ = False"

fun is_list :: "pydata \<Rightarrow> bool" where
  "is_list (PyList _) = True"
| "is_list _ = False"

fun is_dict :: "pydata \<Rightarrow> bool" where
  "is_dict (PyDict _) = True"
| "is_dict _ = False"

text \<open>The items of a mapping (\<^verbatim>\<open>dict(x)\<close>, \<^verbatim>\<open>**x\<close>); anything else raises \<^verbatim>\<open>TypeError\<close>.\<close>

fun py_items :: "pydata \<Rightarrow> exn + (pyval \<times> pyval) list" where
  "py_items (PyDict kvs) = Inr kvs"
| "py_items c = container_items c"

text \<open>\<^verbatim>\<open>**x\<close> in a call: a mapping whose keys are all strings.\<close>

fun str_key :: "pyval \<times> pyval \<Rightarrow> bool" where
  "str_key (PStr _, _) = True"
| "str_key _ = False"

definition py_kwargs :: "pydata \<Rightarrow> exn + (pyval \<times> pyval) list" where
  "py_kwargs x =
     (case py_items x of
        Inl e \<Rightarrow> Inl e
      | Inr kvs \<Rightarrow> (if list_all str_key kvs then Inr kvs else Inl TypeError))"

section \<open>Numericizing loaded data\<close>

text \<open>
  The body of the loop of \<^verbatim>\<open>_numericize\<close>: \<^verbatim>\<open>int(i)\<close> is tried, \<^verbatim>\<open>ValueError\<close> and
  \<^verbatim>\<open>TypeError\<close> are swallowed, and the \<^verbatim>\<open>finally\<close> clause appends either the integer or
  the element as it was.
\<close>

definition numericize_elem :: "pyval \<Rightarrow> pyval" where
  "numericize_elem i = (case py_int i of Inl _ \<Rightarrow> i | Inr n \<Rightarrow> PInt n)"

text \<open>\<^verbatim>\<open>_numericize(loaded_data)\<close>: the loop raises only when the argument cannot be iterated.\<close>

definition numericize :: "pydata \<Rightarrow> exn + pyval list" where
  "numericize loaded_data =
     (case py_iter loaded_data of
        Inl e \<Rightarrow> Inl e
      | Inr xs \<Rightarrow> Inr (map numericize_elem xs))"

section \<open>In-place updates of collections\<close>

text \<open>\<^verbatim>\<open>set.add\<close> and \<^verbatim>\<open>set.update\<close> on the member list.\<close>

definition set_add :: "pyval list \<Rightarrow> pyval \<Rightarrow> pyval list" where
  "set_add xs y = (if y \<in> set xs then xs else xs @ [y])"

definition set_update :: "pyval list \<Rightarrow> pyval list \<Rightarrow> pyval list" where
  "set_update xs ys = foldl set_add xs ys"

text \<open>\<^verbatim>\<open>dict.update(other)\<close> with a mapping: key by key, the other's value wins.\<close>

definition dict_update :: "(pyval \<times> pyval) list \<Rightarrow> (pyval \<times> pyval) list \<Rightarrow> (pyval \<times> pyval) list" where
  "dict_update m other = foldl (\<lambda>acc (k, v). AList.update k v acc) m other"

text \<open>
  \<^verbatim>\<open>dict.update(seq)\<close> with a sequence: every element has to be a pair.  In the universe only
  a two-character string is one; the items before the offending element stay inserted.
\<close>

fun dict_update_seq :: "(pyval \<times> pyval) list \<Rightarrow> pyval list \<Rightarrow> exn option \<times> (pyval \<times> pyval) list" where
  "dict_update_seq m [] = (None, m)"
| "dict_update_seq m (PStr [a, b] # es) = dict_update_seq (AList.update (PStr [a]) (PStr [b]) m) es"
| "dict_update_seq m (PStr _ # es) = (Some ValueError, m)"
| "dict_update_seq m (_ # es) = (Some TypeError, m)"

text \<open>
  \<open>py_update target arg\<close> is \<^verbatim>\<open>target.update(arg)\<close> and \<open>py_extend target arg\<close> is
  \<^verbatim>\<open>target.extend(arg)\<close>: the exception raised, if any, and the target afterwards.  An
  object without the method raises \<^verbatim>\<open>AttributeError\<close>.
\<close>

definition update_mapping :: "(pyval \<times> pyval) list \<Rightarrow> pydata \<Rightarrow> exn option \<times> (pyval \<times> pyval) list" where
  "update_mapping m arg =
     (case py_items arg of
        Inr kvs \<Rightarrow> (None, dict_update m kvs)
      | Inl _ \<Rightarrow> (case py_iter arg of Inl e \<Rightarrow> (Some e, m) | Inr es \<Rightarrow> dict_update_seq m es))"

definition update_members :: "pyval list \<Rightarrow> pydata \<Rightarrow> exn option \<times> pyval list" where
  "update_members xs arg =
     (case py_iter arg of Inl e \<Rightarrow> (Some e, xs) | Inr ys \<Rightarrow> (None, set_update xs ys))"

text \<open>
  Modelled from the spec: \<^verbatim>\<open>update\<close> on a container of the missing \<^verbatim>\<open>cachetypes.py\<close> (and
  on \<^verbatim>\<open>diskcache\<close>'s \<^verbatim>\<open>Index\<close>), like \<^verbatim>\<open>set.update\<close> and \<^verbatim>\<open>dict.update\<close>.
\<close>

fun container_update :: "pydata \<Rightarrow> pydata \<Rightarrow> exn option \<times> pydata" where
  "container_update (CacheSet xs d) arg = map_prod id (\<lambda>ys. CacheSet ys d) (update_members xs arg)"
| "container_update (Index m d) arg = map_prod id (\<lambda>kvs. Index kvs d) (update_mapping m arg)"
| "container_update (EvictingIndex d m) arg = map_prod id (EvictingIndex d) (update_mapping m arg)"
| "container_update t arg = (Some AttributeError, t)"

fun py_update :: "pydata \<Rightarrow> pydata \<Rightarrow> exn option \<times> pydata" where
  "py_update (PySet xs) arg = map_prod id PySet (update_members xs arg)"
| "py_update (PyDict m) arg = map_prod id PyDict (update_mapping m arg)"
| "py_update t arg = container_update t arg"

definition extend_items :: "pyval list \<Rightarrow> pydata \<Rightarrow> exn option \<times> pyval list" where
  "extend_items xs arg =
     (case py_iter arg of Inl e \<Rightarrow> (Some e, xs) | Inr ys \<Rightarrow> (None, xs @ ys))"

text \<open>
  Modelled from the spec: \<^verbatim>\<open>extend\<close> on a sequence container ("append-ordered"), like
  \<^verbatim>\<open>list.extend\<close>.
\<close>

fun container_extend :: "pydata \<Rightarrow> pydata \<Rightarrow> exn option \<times> pydata" where
  "container_extend (Deque xs d) arg = map_prod id (\<lambda>ys. Deque ys d) (extend_items xs arg)"
| "container_extend t arg = (Some AttributeError, t)"

fun py_extend :: "pydata \<Rightarrow> pydata \<Rightarrow> exn option \<times> pydata" where
  "py_extend (PyList xs) arg = map_prod id PyList (extend_items xs arg)"
| "py_extend t arg = container_extend t arg"

section \<open>The file binding layer and the file system\<close>

text \<open>
  \<^verbatim>\<open>FileManager\<close> (package \<^verbatim>\<open>easyfilemanager\<close>) is an external collaborator.  Its answers
  are parameters of the model, asked by logical name: whether the bound file exists, what
  \<^verbatim>\<open>smart_load\<close> returns or raises, and whether a \<^verbatim>\<open>smart_save\<close> raises.  A
  \<^verbatim>\<open>smart_save\<close> that returns is recorded in the registry state as a write: the name, the
  value handed over, the \<^verbatim>\<open>mode\<close> argument (\<open>None\<close> when the call passes none) and
  the keyword arguments.  \<open>rmtree_raises\<close> tells whether \<^verbatim>\<open>shutil.rmtree\<close> fails on a
  directory, and \<open>user_callback\<close> what a callable that the program itself appended to the
  daemon's list raises.
\<close>

record env =
  fm_exists :: "string \<Rightarrow> bool"
  fm_smart_load :: "string \<Rightarrow> kwargs \<Rightarrow> exn + pydata"
  fm_smart_save :: "string \<Rightarrow> pydata \<Rightarrow> string option \<Rightarrow> kwargs \<Rightarrow> exn option"
  rmtree_raises :: "string \<Rightarrow> exn option"
  user_callback :: "nat \<Rightarrow> exn option"

type_synonym disk_write = "string \<times> pydata \<times> string option \<times> kwargs"

section \<open>The registry\<close>

text \<open>
  The callables in \<^verbatim>\<open>SaveDaemon.funcs\<close>: the registry's own two bound methods, which
  \<^verbatim>\<open>__init__\<close> puts there, and any other callable, identified by a number.
\<close>

datatype callback = CbSave | CbSaveCaches | CbUser nat

record save_daemon =
  go :: bool
  sleep :: int
  funcs :: "callback list"
  started :: bool

text \<open>
  One \<^verbatim>\<open>DataManager\<close> together with the class attributes it works on
  (\<open>filemanager\<close>, \<open>do_not_display\<close>, \<open>do_not_save\<close>, \<open>do_not_append_session_id\<close>,
  \<open>save_kwargs\<close>, \<open>load_kwargs\<close>).  \<open>data\<close> is the dictionary of the \<^verbatim>\<open>UserDict\<close>,
  in insertion order; \<open>filemanager\<close> maps a registered short name to its directory and file
  name.  \<open>logged\<close> collects what \<^verbatim>\<open>logger.exception\<close> reports (debug messages are not
  kept), \<open>written\<close> the writes made through the file layer, \<open>removed\<close> the directories
  deleted by \<^verbatim>\<open>shutil.rmtree\<close>.
\<close>

record datamanager =
  data :: "(string \<times> pydata) list"
  session_id :: string
  do_not_display :: "string list"
  do_not_save :: "string list"
  do_not_append_session_id :: "string list"
  save_kwargs :: "(string \<times> kwargs) list"
  load_kwargs :: "(string \<times> kwargs) list"
  filemanager :: "(string \<times> string \<times> string) list"
  logged :: "exn list"
  written :: "disk_write list"
  removed :: "string list"
  save_daemon :: save_daemon

text \<open>
  The class attributes (\<^verbatim>\<open>datamanager.py\<close>, lines 33 to 39) belong to the class: every
  instance reads and extends the same lists and dictionaries, and no constructor resets
  them.  \<open>class_body\<close> is their value when the class statement has run, \<open>class_of\<close>
  their value as an instance has left them.
\<close>

record class_attrs =
  cls_filemanager :: "(string \<times> string \<times> string) list"
  cls_do_not_display :: "string list"
  cls_do_not_save :: "string list"
  cls_do_not_append_session_id :: "string list"
  cls_save_kwargs :: "(string \<times> kwargs) list"
  cls_load_kwargs :: "(string \<times> kwargs) list"

definition class_body :: class_attrs where
  "class_body =
     \<lparr> cls_filemanager = [], cls_do_not_display = [], cls_do_not_save = [],
       cls_do_not_append_session_id = [], cls_save_kwargs = [], cls_load_kwargs = [] \<rparr>"

definition class_of :: "datamanager \<Rightarrow> class_attrs" where
  "class_of s =
     \<lparr> cls_filemanager = filemanager s, cls_do_not_display = do_not_display s,
       cls_do_not_save = do_not_save s,
       cls_do_not_append_session_id = do_not_append_session_id s,
       cls_save_kwargs = save_kwargs s, cls_load_kwargs = load_kwargs s \<rparr>"

text \<open>
  \<^verbatim>\<open>randint(a, b)\<close> returns an integer from \<open>a\<close> to \<open>b\<close>, both included; which one
  is decided by the state of the generator, here a natural number.
\<close>

definition randint :: "int \<Rightarrow> int \<Rightarrow> nat \<Rightarrow> int" where
  "randint a b seed = a + int (seed mod nat (b - a + 1))"

text \<open>
  \<^verbatim>\<open>__init__\<close>.  \<open>cls\<close> is the class as it is when the instance is made, \<open>items\<close>
  what the arguments of the constructor put into the dictionary
  (\<^verbatim>\<open>UserDict.__init__\<close> inserts them one by one), \<open>seed\<close> the state of the random
  generator.  \<^verbatim>\<open>SaveDaemon.__init__\<close> sets \<open>go\<close> and the default interval of 15 seconds.
  The three logs of the model start empty.
\<close>

definition init :: "class_attrs \<Rightarrow> (string \<times> pydata) list \<Rightarrow> nat \<Rightarrow> datamanager" where
  "init cls items seed =
     \<lparr> data = foldl (\<lambda>d kv. AList.update (fst kv) (snd kv) d) [] items,
       session_id = str_int (randint 100000 999999 seed),
       do_not_display = cls_do_not_display cls, do_not_save = cls_do_not_save cls,
       do_not_append_session_id = cls_do_not_append_session_id cls,
       save_kwargs = cls_save_kwargs cls, load_kwargs = cls_load_kwargs cls,
       filemanager = cls_filemanager cls,
       logged = [], written = [], removed = [],
       save_daemon = \<lparr> go = True, sleep = 15, funcs = [CbSave, CbSaveCaches], started = False \<rparr> \<rparr>"

text \<open>\<^verbatim>\<open>self[name] = data\<close>, \<^verbatim>\<open>name in self.filemanager\<close>, \<^verbatim>\<open>d.get(name, {})\<close>.\<close>

definition setitem :: "string \<Rightarrow> pydata \<Rightarrow> datamanager \<Rightarrow> datamanager" where
  "setitem name v s = s\<lparr>data := AList.update name v (data s)\<rparr>"

definition in_filemanager :: "string \<Rightarrow> datamanager \<Rightarrow> bool" where
  "in_filemanager name s = (name \<in> fst ` set (filemanager s))"

definition kwargs_get :: "(string \<times> kwargs) list \<Rightarrow> string \<Rightarrow> kwargs" where
  "kwargs_get d name = (case map_of d name of None \<Rightarrow> [] | Some kw \<Rightarrow> kw)"

text \<open>An optional \<^verbatim>\<open>dict\<close> argument is true when it is given and not empty.\<close>

fun kw_truthy :: "kwargs option \<Rightarrow> bool" where
  "kw_truthy None = False"
| "kw_truthy (Some kw) = (kw \<noteq> [])"

fun kw_val :: "kwargs option \<Rightarrow> kwargs" where
  "kw_val None = []"
| "kw_val (Some kw) = kw"

text \<open>
  The first lines of \<^verbatim>\<open>register\<close> and of \<^verbatim>\<open>register_cache\<close>: the key under which the
  entry is stored, and the note taken of a name that is stored without the session id.
\<close>

definition stored_name :: "string \<Rightarrow> bool \<Rightarrow> datamanager \<Rightarrow> string" where
  "stored_name name append_session_id s = (if append_session_id then name @ session_id s else name)"

definition note_suffix :: "string \<Rightarrow> bool \<Rightarrow> datamanager \<Rightarrow> datamanager" where
  "note_suffix name append_session_id s =
     (if append_session_id then s
      else s\<lparr>do_not_append_session_id := do_not_append_session_id s @ [name @ session_id s]\<rparr>)"

definition register :: "string \<Rightarrow> pydata \<Rightarrow> bool \<Rightarrow> bool \<Rightarrow> datamanager \<Rightarrow> datamanager" where
  "register name d display append_session_id s =
     (let name' = stored_name name append_session_id s;
          s1 = note_suffix name append_session_id s;
          s2 = (if \<not> display then s1\<lparr>do_not_display := do_not_display s1 @ [name']\<rparr> else s1)
      in setitem name' d s2)"

text \<open>
  \<^verbatim>\<open>load(data, loaded_data, name)\<close>: the shape of \<open>d\<close> picks the method, which is called on
  the entry stored under \<open>name\<close> (\<^verbatim>\<open>KeyError\<close> when there is none) and changes it in place.
\<close>

definition numericize_if_iterable :: "pydata \<Rightarrow> pydata" where
  "numericize_if_iterable loaded_data =
     (if is_iterable loaded_data \<and> \<not> is_dict loaded_data
      then (case numericize loaded_data of
              Inr new_iterable \<Rightarrow> PyList new_iterable
            | Inl _ \<Rightarrow> loaded_data)
      else loaded_data)"

definition call_method ::
  "(pydata \<Rightarrow> pydata \<Rightarrow> exn option \<times> pydata) \<Rightarrow> string \<Rightarrow> pydata \<Rightarrow> datamanager
     \<Rightarrow> exn option \<times> datamanager" where
  "call_method method name arg s =
     (case map_of (data s) name of
        None \<Rightarrow> (Some KeyError, s)
      | Some target \<Rightarrow> (fst (method target arg), setitem name (snd (method target arg)) s))"

definition load :: "pydata \<Rightarrow> pydata \<Rightarrow> string \<Rightarrow> datamanager \<Rightarrow> exn option \<times> datamanager" where
  "load d loaded_data name s =
     (let loaded = numericize_if_iterable loaded_data
      in if is_set d then call_method py_update name loaded s
         else if is_list d then call_method py_extend name loaded s
         else if is_dict d then call_method py_update name loaded s
         else (None, s))"

text \<open>
  The bookkeeping that \<^verbatim>\<open>register_file\<close> and \<^verbatim>\<open>register_cache\<close> share, in the order of
  the source: the display and save flags, the keyword arguments kept per name, the
  effective \<^verbatim>\<open>load_kwargs\<close>, and the binding of the name to a file
  (\<^verbatim>\<open>filemanager.register_file(file_name, file_path, short_name=name)\<close>).
\<close>

definition record_options ::
  "string \<Rightarrow> bool \<Rightarrow> bool \<Rightarrow> kwargs option \<Rightarrow> kwargs option \<Rightarrow> datamanager \<Rightarrow> datamanager" where
  "record_options name display do_save skw lkw s =
     (let s1 = (if \<not> display then s\<lparr>do_not_display := do_not_display s @ [name]\<rparr> else s);
          s2 = (if \<not> do_save then s1\<lparr>do_not_save := do_not_save s1 @ [name]\<rparr> else s1);
          s3 = (if kw_truthy skw
                then s2\<lparr>save_kwargs := AList.update name (kw_val skw) (save_kwargs s2)\<rparr> else s2)
      in if kw_truthy lkw
         then s3\<lparr>load_kwargs := AList.update name (kw_val lkw) (load_kwargs s3)\<rparr> else s3)"

definition effective_kwargs :: "kwargs option \<Rightarrow> kwargs" where
  "effective_kwargs lkw = (if kw_truthy lkw then kw_val lkw else [])"

definition bind_file :: "string \<Rightarrow> string \<Rightarrow> datamanager \<Rightarrow> datamanager" where
  "bind_file name path_to_file s =
     (let file_path = fst (path_split path_to_file);
          file_name = snd (path_split path_to_file);
          file_path' = (if file_path = [] then ''.'' else file_path)
      in s\<lparr>filemanager := AList.update name (file_path', file_name) (filemanager s)\<rparr>)"

definition register_file ::
  "env \<Rightarrow> string \<Rightarrow> pydata \<Rightarrow> string \<Rightarrow> bool \<Rightarrow> bool \<Rightarrow> bool \<Rightarrow> kwargs option \<Rightarrow> kwargs option
     \<Rightarrow> datamanager \<Rightarrow> exn option \<times> datamanager" where
  "register_file e name initial_data path_to_file display do_load do_save skw lkw s =
     (if initial_data = PyType then (Some TypeError, s)
      else
        let s5 = bind_file name path_to_file (record_options name display do_save skw lkw s)
        in if do_load \<and> fm_exists e name
           then (case fm_smart_load e name (effective_kwargs lkw) of
                   Inl err \<Rightarrow> (Some err, s5)
                 | Inr loaded_data \<Rightarrow>
                     (let s6 = register name initial_data display False s5
                      in if truthy loaded_data then load initial_data loaded_data name s6
                         else (None, s6)))
           else (None, register name initial_data display False s5))"

text \<open>
  \<^verbatim>\<open>_create_cache\<close>.  \<open>x or empty\<close> is written out: a false \<open>loaded_data\<close> gives the
  empty seed.  The constructors iterate (or unpack) what they are given, so a seed that
  cannot be iterated (or unpacked as keyword arguments) raises \<^verbatim>\<open>TypeError\<close>.  An
  \<open>initial_data\<close> that is neither a set, a list nor a dict creates nothing.
\<close>

definition cache_path :: "string \<Rightarrow> string \<Rightarrow> string" where
  "cache_path name directory =
     (let path_name = (if CHR ''/'' \<in> set name then split_on CHR ''/'' name ! 1 else name)
      in path_join ''cache'' [directory, path_name])"

definition create_cache :: "pydata \<Rightarrow> pydata \<Rightarrow> string \<Rightarrow> string \<Rightarrow> datamanager \<Rightarrow> exn option \<times> datamanager" where
  "create_cache initial_data loaded_data name directory s =
     (let path = cache_path name directory
      in if is_set initial_data then
           (if truthy loaded_data
            then (case numericize loaded_data of
                    Inl err \<Rightarrow> (Some err, s)
                  | Inr xs \<Rightarrow> (None, setitem name (CacheSet xs path) s))
            else (None, setitem name (CacheSet [] path) s))
         else if is_list initial_data then
           (if truthy loaded_data
            then (case py_iter loaded_data of
                    Inl err \<Rightarrow> (Some err, s)
                  | Inr xs \<Rightarrow> (None, setitem name (Deque xs path) s))
            else (None, setitem name (Deque [] path) s))
         else if is_dict initial_data then
           (if truthy loaded_data
            then (case py_kwargs loaded_data of
                    Inl err \<Rightarrow> (Some err, s)
                  | Inr kvs \<Rightarrow> (None, setitem name (EvictingIndex path kvs) s))
            else (None, setitem name (EvictingIndex path []) s))
         else (None, s))"

text \<open>\<^verbatim>\<open>if path_to_file:\<close> holds for a path that is given and not the empty string.\<close>

fun path_given :: "string option \<Rightarrow> bool" where
  "path_given None = False"
| "path_given (Some p) = (p \<noteq> [])"

fun path_val :: "string option \<Rightarrow> string" where
  "path_val None = []"
| "path_val (Some p) = p"

definition register_cache ::
  "env \<Rightarrow> string \<Rightarrow> pydata \<Rightarrow> string option \<Rightarrow> bool \<Rightarrow> bool \<Rightarrow> bool \<Rightarrow> kwargs option \<Rightarrow> kwargs option
     \<Rightarrow> string \<Rightarrow> bool \<Rightarrow> datamanager \<Rightarrow> exn option \<times> datamanager" where
  "register_cache e name0 initial_data path_to_file display do_load do_save skw lkw directory
       append_session_id s =
     (if initial_data = PyType then (Some TypeError, s)
      else
        let name = stored_name name0 append_session_id s;
            s4 = record_options name display do_save skw lkw (note_suffix name0 append_session_id s)
        in if path_given path_to_file
           then
             (let s5 = bind_file name (path_val path_to_file) s4
              in if do_load \<and> fm_exists e name
                 then (case fm_smart_load e name (effective_kwargs lkw) of
                         Inl err \<Rightarrow> (Some err, s5)
                       | Inr loaded_data \<Rightarrow> create_cache initial_data loaded_data name directory s5)
                 else create_cache initial_data initial_data name directory s5)
           else create_cache initial_data py_None name directory s4)"

text \<open>\<^verbatim>\<open>get(k, optional)\<close>: \<^verbatim>\<open>super().get\<close> is the dictionary lookup with a default.\<close>

definition get :: "string \<Rightarrow> pydata \<Rightarrow> datamanager \<Rightarrow> pydata" where
  "get k optional s =
     (let k1 = k @ session_id s;
          k2 = (if k1 \<in> set (do_not_append_session_id s) then replace (session_id s) [] k1 else k1)
      in case map_of (data s) k2 of None \<Rightarrow> optional | Some v \<Rightarrow> v)"

definition file_update :: "string \<Rightarrow> pydata \<Rightarrow> datamanager \<Rightarrow> datamanager" where
  "file_update name d s = setitem name d s"

text \<open>A call of \<^verbatim>\<open>filemanager.smart_save\<close>: it raises, or the write is recorded.\<close>

definition smart_save ::
  "env \<Rightarrow> string \<Rightarrow> pydata \<Rightarrow> string option \<Rightarrow> kwargs \<Rightarrow> datamanager \<Rightarrow> exn option \<times> datamanager" where
  "smart_save e name v mode kw s =
     (case fm_smart_save e name v mode kw of
        Some err \<Rightarrow> (Some err, s)
      | None \<Rightarrow> (None, s\<lparr>written := written s @ [(name, v, mode, kw)]\<rparr>))"

text \<open>
  \<^verbatim>\<open>save\<close>: the loop over \<^verbatim>\<open>self.items()\<close>.  The \<^verbatim>\<open>try\<close> encloses the call of
  \<^verbatim>\<open>smart_save\<close>; the handler logs the exception and the loop goes on.
\<close>

fun save_loop :: "env \<Rightarrow> (string \<times> pydata) list \<Rightarrow> datamanager \<Rightarrow> exn option \<times> datamanager" where
  "save_loop e [] s = (None, s)"
| "save_loop e ((name, v) # rest) s =
     (if \<not> in_filemanager name s \<or> name \<in> set (do_not_save s) then save_loop e rest s
      else if \<not> truthy v then save_loop e rest s
      else
        (case smart_save e name v None (kwargs_get (save_kwargs s) name) s of
           (Some err, s') \<Rightarrow> save_loop e rest (s'\<lparr>logged := logged s' @ [err]\<rparr>)
         | (None, s') \<Rightarrow> save_loop e rest s'))"

definition save :: "env \<Rightarrow> datamanager \<Rightarrow> exn option \<times> datamanager" where
  "save e s = save_loop e (data s) s"

text \<open>
  \<^verbatim>\<open>save_caches\<close>: the same loop for the containers.  There is no \<^verbatim>\<open>try\<close> here: an
  exception of \<^verbatim>\<open>smart_save\<close> leaves the loop and the function.  \<open>list(value)\<close> and
  \<open>dict(value)\<close> are the snapshots handed to the file layer.  The first call passes
  \<^verbatim>\<open>mode='w+'\<close> next to \<^verbatim>\<open>**save_kwargs\<close>: registered keyword arguments that hold a
  \<^verbatim>\<open>mode\<close> of their own make the call itself raise \<^verbatim>\<open>TypeError\<close>.
\<close>

fun is_set_or_deque :: "pydata \<Rightarrow> bool" where
  "is_set_or_deque (CacheSet _ _) = True"
| "is_set_or_deque (Deque _ _) = True"
| "is_set_or_deque _ = False"

fun is_index :: "pydata \<Rightarrow> bool" where
  "is_index (Index _ _) = True"
| "is_index (EvictingIndex _ _) = True"
| "is_index _ = False"

definition py_list :: "pydata \<Rightarrow> pydata" where
  "py_list v = PyList (case py_iter v of Inr xs \<Rightarrow> xs | Inl _ \<Rightarrow> [])"

definition py_dict :: "pydata \<Rightarrow> pydata" where
  "py_dict v = PyDict (case py_items v of Inr kvs \<Rightarrow> kvs | Inl _ \<Rightarrow> [])"

fun save_caches_loop :: "env \<Rightarrow> (string \<times> pydata) list \<Rightarrow> datamanager \<Rightarrow> exn option \<times> datamanager" where
  "save_caches_loop e [] s = (None, s)"
| "save_caches_loop e ((name, v) # rest) s =
     (let kw = kwargs_get (save_kwargs s) name
      in if \<not> in_filemanager name s \<or> name \<in> set (do_not_save s) then save_caches_loop e rest s
         else if is_set_or_deque v then
           (if ''mode'' \<in> fst ` set kw then (Some TypeError, s)
            else
              (case smart_save e name (py_list v) (Some ''w+'') kw s of
                 (Some err, s') \<Rightarrow> (Some err, s')
               | (None, s') \<Rightarrow> save_caches_loop e rest s'))
         else if is_index v then
           (case smart_save e name (py_dict v) None kw s of
              (Some err, s') \<Rightarrow> (Some err, s')
            | (None, s') \<Rightarrow> save_caches_loop e rest s')
         else save_caches_loop e rest s)"

definition save_caches :: "env \<Rightarrow> datamanager \<Rightarrow> exn option \<times> datamanager" where
  "save_caches e s = save_caches_loop e (data s) s"

text \<open>
  Modelled from the spec: \<^verbatim>\<open>EvictingIndex\<close> and \<^verbatim>\<open>CacheSet\<close> (\<^verbatim>\<open>cachetypes.py\<close> is
  missing) have \<^verbatim>\<open>clear()\<close> and a \<^verbatim>\<open>directory\<close>, and \<^verbatim>\<open>clean()\<close> reaches every
  disk-backed container, so an \<^verbatim>\<open>EvictingIndex\<close> counts as an \<^verbatim>\<open>Index\<close>.  The result is
  the cleared container and its directory; \<open>None\<close> for anything that is not a container.
\<close>

fun clear_container :: "pydata \<Rightarrow> (pydata \<times> string) option" where
  "clear_container (CacheSet _ d) = Some (CacheSet [] d, d)"
| "clear_container (Deque _ d) = Some (Deque [] d, d)"
| "clear_container (Index _ d) = Some (Index [] d, d)"
| "clear_container (EvictingIndex d _) = Some (EvictingIndex d [], d)"
| "clear_container _ = None"

text \<open>\<^verbatim>\<open>clean\<close>: a container bound to a file is cleared and its directory removed.\<close>

fun clean_loop :: "env \<Rightarrow> (string \<times> pydata) list \<Rightarrow> datamanager \<Rightarrow> exn option \<times> datamanager" where
  "clean_loop e [] s = (None, s)"
| "clean_loop e ((name, v) # rest) s =
     (if \<not> in_filemanager name s then clean_loop e rest s
      else
        (case clear_container v of
           None \<Rightarrow> clean_loop e rest s
         | Some (v', dir) \<Rightarrow>
             (let s' = setitem name v' s
              in case rmtree_raises e dir of
                   Some err \<Rightarrow> (Some err, s')
                 | None \<Rightarrow> clean_loop e rest (s'\<lparr>removed := removed s' @ [dir]\<rparr>))))"

definition clean :: "env \<Rightarrow> datamanager \<Rightarrow> exn option \<times> datamanager" where
  "clean e s = clean_loop e (data s) s"

text \<open>
  \<^verbatim>\<open>start_save_daemon\<close> and \<^verbatim>\<open>stop_daemon\<close>.  \<^verbatim>\<open>Thread.start\<close> raises
  \<^verbatim>\<open>RuntimeError\<close> when the thread was started before.
\<close>

fun sleep_given :: "int option \<Rightarrow> bool" where
  "sleep_given None = False"
| "sleep_given (Some t) = (t \<noteq> 0)"

fun sleep_val :: "int option \<Rightarrow> int" where
  "sleep_val None = 0"
| "sleep_val (Some t) = t"

definition start_save_daemon :: "int option \<Rightarrow> datamanager \<Rightarrow> exn option \<times> datamanager" where
  "start_save_daemon sleep_time s =
     (let d = save_daemon s;
          d1 = (if sleep_given sleep_time then d\<lparr>sleep := sleep_val sleep_time\<rparr> else d)
      in if started d1 then (Some (OtherError ''RuntimeError''), s\<lparr>save_daemon := d1\<rparr>)
         else (None, s\<lparr>save_daemon := d1\<lparr>started := True\<rparr>\<rparr>))"

definition stop_daemon :: "datamanager \<Rightarrow> datamanager" where
  "stop_daemon s = s\<lparr>save_daemon := (save_daemon s)\<lparr>go := False\<rparr>\<rparr>"

section \<open>Sequences of calls\<close>

text \<open>
  The public operations of the registry as commands.  An exception ends the call that
  raised it, not the program: the caller goes on with the state the call left behind.
  \<^verbatim>\<open>get_data_string\<close> only reads the registry and builds a string; it is not a command
  here.
\<close>

datatype command =
    Register string pydata bool bool
  | RegisterFile string pydata string bool bool bool "kwargs option" "kwargs option"
  | RegisterCache string pydata "string option" bool bool bool "kwargs option" "kwargs option"
      string bool
  | Load pydata pydata string
  | Get string pydata
  | FileUpdate string pydata
  | Save
  | SaveCaches
  | Clean
  | StartSaveDaemon "int option"
  | StopDaemon

fun exec :: "env \<Rightarrow> command \<Rightarrow> datamanager \<Rightarrow> datamanager" where
  "exec e (Register name d display a) s = register name d display a s"
| "exec e (RegisterFile name d p display l sv skw lkw) s =
     snd (register_file e name d p display l sv skw lkw s)"
| "exec e (RegisterCache name d p display l sv skw lkw dir a) s =
     snd (register_cache e name d p display l sv skw lkw dir a s)"
| "exec e (Load d ld name) s = snd (load d ld name s)"
| "exec e (Get k optional) s = s"
| "exec e (FileUpdate name d) s = file_update name d s"
| "exec e Save s = snd (save e s)"
| "exec e SaveCaches s = snd (save_caches e s)"
| "exec e Clean s = snd (clean e s)"
| "exec e (StartSaveDaemon t) s = snd (start_save_daemon t s)"
| "exec e StopDaemon s = stop_daemon s"

definition exec_all :: "env \<Rightarrow> command list \<Rightarrow> datamanager \<Rightarrow> datamanager" where
  "exec_all e cs s = foldl (\<lambda>st c. exec e c st) s cs"

section \<open>The persistence daemon\<close>

text \<open>
  \<^verbatim>\<open>SaveDaemon.run\<close> executes on a thread of its own, while the main thread goes on calling
  the registry.  The thread is a small-step machine.  Its control points are: \<open>AtTest\<close>,
  about to evaluate \<^verbatim>\<open>self.go\<close> at the top of the \<^verbatim>\<open>while\<close>; \<open>InRound i\<close>, inside the
  \<^verbatim>\<open>for\<close> with \<open>i\<close> callbacks of this round done; \<open>Sleeping\<close>, inside
  \<^verbatim>\<open>sleep(self.sleep)\<close>; \<open>Halted\<close>, \<^verbatim>\<open>run\<close> has returned or was left by an
  exception.  \<open>calls\<close> counts the
  callbacks invoked, \<open>sleeps\<close> the sleeps completed, and \<open>printed\<close> is what the handler
  printed.  Time is measured in these counts.
\<close>

datatype pc = AtTest | InRound nat | Sleeping | Halted

record thread =
  pc :: pc
  calls :: nat
  sleeps :: nat
  printed :: "exn list"
  raised :: "exn option"

definition thread0 :: thread where
  "thread0 = \<lparr> pc = AtTest, calls = 0, sleeps = 0, printed = [], raised = None \<rparr>"

fun run_callback :: "env \<Rightarrow> callback \<Rightarrow> datamanager \<Rightarrow> exn option \<times> datamanager" where
  "run_callback e CbSave s = save e s"
| "run_callback e CbSaveCaches s = save_caches e s"
| "run_callback e (CbUser n) s = (user_callback e n, s)"

fun printed_of :: "exn option \<Rightarrow> exn list" where
  "printed_of None = []"
| "printed_of (Some err) = [err]"

text \<open>
  One step of the daemon thread; it does nothing before \<^verbatim>\<open>start()\<close>.  The flag is read
  at \<open>AtTest\<close> and nowhere else.  A callback is one step: its exception is caught and
  printed.  The call of \<^verbatim>\<open>sleep\<close> is outside the \<^verbatim>\<open>try\<close>: with a negative interval it
  raises \<^verbatim>\<open>ValueError\<close>, which ends the thread (\<open>raised\<close> keeps the exception).
\<close>

definition daemon_step :: "env \<Rightarrow> thread \<times> datamanager \<Rightarrow> thread \<times> datamanager" where
  "daemon_step e cfg =
     (case cfg of (t, s) \<Rightarrow>
        if \<not> started (save_daemon s) then (t, s)
        else
          (case pc t of
             AtTest \<Rightarrow> (if go (save_daemon s) then (t\<lparr>pc := InRound 0\<rparr>, s)
                        else (t\<lparr>pc := Halted\<rparr>, s))
           | InRound i \<Rightarrow>
               (if i < length (funcs (save_daemon s))
                then (case run_callback e (funcs (save_daemon s) ! i) s of
                        (r, s') \<Rightarrow>
                          (t\<lparr>pc := InRound (Suc i), calls := Suc (calls t),
                              printed := printed t @ printed_of r\<rparr>, s'))
                else if sleep (save_daemon s) < 0
                then (t\<lparr>pc := Halted, raised := Some ValueError\<rparr>, s)
                else (t\<lparr>pc := Sleeping\<rparr>, s))
           | Sleeping \<Rightarrow> (t\<lparr>pc := AtTest, sleeps := Suc (sleeps t)\<rparr>, s)
           | Halted \<Rightarrow> (t, s)))"

text \<open>
  A run of the program interleaves steps of the daemon thread (\<open>Tick\<close>) with calls made by
  the main thread (\<open>Main c\<close>), in any order.
\<close>

datatype event = Tick | Main command

fun step :: "env \<Rightarrow> event \<Rightarrow> thread \<times> datamanager \<Rightarrow> thread \<times> datamanager" where
  "step e Tick cfg = daemon_step e cfg"
| "step e (Main c) cfg = (fst cfg, exec e c (snd cfg))"

definition run_schedule :: "env \<Rightarrow> event list \<Rightarrow> thread \<times> datamanager \<Rightarrow> thread \<times> datamanager" where
  "run_schedule e evs cfg = foldl (\<lambda>c ev. step e ev c) cfg evs"

definition ticks :: "event list \<Rightarrow> nat" where
  "ticks evs = length (filter (\<lambda>ev. ev = Tick) evs)"

text \<open>An environment in which no bound file exists and nothing fails.\<close>

definition env0 :: env where
  "env0 = \<lparr> fm_exists = (\<lambda>_. False), fm_smart_load = (\<lambda>_ _. Inr py_None),
            fm_smart_save = (\<lambda>_ _ _ _. None), rmtree_raises = (\<lambda>_. None),
            user_callback = (\<lambda>_. None) \<rparr>"

text \<open>
  The first registry of a process: the class as its body leaves it, no constructor
  arguments, and a generator state for which the draw is 123456.
\<close>

definition dm0 :: datamanager where
  "dm0 = init class_body [] 23456"

text \<open>
  Environments and registries used as concrete inputs: a file layer whose
  \<^verbatim>\<open>smart_save\<close> raises for one name; two in-memory entries bound to files; two containers
  bound to files; an empty set container and a map container bound to files.
\<close>

definition env_locked :: "string \<Rightarrow> env" where
  "env_locked locked =
     env0\<lparr> fm_smart_save := (\<lambda>name v mode kw. if name = locked then Some (OtherError ''locked'') else None) \<rparr>"

definition two_files :: datamanager where
  "two_files = exec_all env0
     [RegisterFile ''a'' (PyList [PInt 1]) ''a.txt'' True True True None None,
      RegisterFile ''b'' (PyList [PInt 2]) ''b.txt'' True True True None None] dm0"

definition two_caches :: datamanager where
  "two_caches = exec_all env0
     [RegisterCache ''a'' (PySet [PInt 1]) (Some ''a.txt'') True True True None None ''.'' False,
      RegisterCache ''b'' (PyList [PInt 2]) (Some ''b.txt'') True True True None None ''.'' False] dm0"

definition empty_and_map :: datamanager where
  "empty_and_map = exec_all env0
     [RegisterCache ''c'' (PySet []) (Some ''c.txt'') True True True None None ''.'' False,
      RegisterCache ''m'' (PyDict [(PStr ''k'', PInt 1)]) (Some ''m.json'') True True True None None
        ''.'' False] dm0"





text \<open>
  Measures on the control point of the daemon thread once the flag is cleared, for a list
  of \<open>n\<close> callbacks: the callbacks still to be invoked, the sleeps still to be taken, and
  the steps still to be made before \<open>Halted\<close>.  \<open>stopping c c'\<close> relates a configuration
  with a cleared flag to a later one.  \<open>started0\<close> is the first registry after
  \<^verbatim>\<open>start_save_daemon()\<close>.
\<close>

fun round_left :: "nat \<Rightarrow> pc \<Rightarrow> nat" where
  "round_left n (InRound i) = n - i"
| "round_left n _ = 0"

fun sleep_left :: "pc \<Rightarrow> nat" where
  "sleep_left (InRound i) = 1"
| "sleep_left Sleeping = 1"
| "sleep_left _ = 0"

fun steps_left :: "nat \<Rightarrow> pc \<Rightarrow> nat" where
  "steps_left n AtTest = 1"
| "steps_left n (InRound i) = (n - i) + 3"
| "steps_left n Sleeping = 2"
| "steps_left n Halted = 0"

definition started0 :: datamanager where
  "started0 = snd (start_save_daemon None dm0)"

definition stopping :: "thread \<times> datamanager \<Rightarrow> thread \<times> datamanager \<Rightarrow> bool" where
  "stopping c c' =
     (let t = fst c; s = snd c; t' = fst c'; s' = snd c'; n = length (funcs (save_daemon s))
      in \<not> go (save_daemon s') \<and> funcs (save_daemon s') = funcs (save_daemon s) \<and>
         (started (save_daemon s) \<longrightarrow> started (save_daemon s')) \<and>
         calls t \<le> calls t' \<and> sleeps t \<le> sleeps t' \<and>
         calls t' + round_left n (pc t') = calls t + round_left n (pc t) \<and>
         sleeps t' + sleep_left (pc t') \<le> sleeps t + sleep_left (pc t) \<and>
         steps_left n (pc t') \<le> steps_left n (pc t) \<and>
         (pc t = Halted \<longrightarrow> t' = t))"

section \<open>The bounded map container\<close>

text \<open>
  Modelled from the spec: the bounded map container (\<^verbatim>\<open>EvictingIndex\<close> of
  \<^verbatim>\<open>datamanager/cachetypes.py\<close>, which is missing from the sources).  The spec: "Map
  container (bounded): enforces an eviction policy: when insertion would exceed a
  configured maximum entry count, the least-recently-used entry is evicted before the new
  entry is admitted.  Eviction is transparent to the caller: it is a side effect of put,
  never a separate call the Registry must make."  A slot is a key, its value and the time
  of its last use; \<open>clock\<close> is the time of the next use.
\<close>

type_synonym slot = "pyval \<times> pyval \<times> nat"

record evicting_index =
  max_entries :: nat
  clock :: nat
  slots :: "slot list"

definition stamp :: "slot \<Rightarrow> nat" where
  "stamp sl = snd (snd sl)"

definition ei_keys :: "evicting_index \<Rightarrow> pyval list" where
  "ei_keys c = map fst (slots c)"

definition ei_empty :: "nat \<Rightarrow> evicting_index" where
  "ei_empty n = \<lparr> max_entries = n, clock = 0, slots = [] \<rparr>"

text \<open>
  Modelled from the spec: the least recently used entry is the one whose last use is
  oldest; \<open>evict\<close> removes it.
\<close>

definition lru_key :: "evicting_index \<Rightarrow> pyval option" where
  "lru_key c = (if slots c = [] then None else Some (fst (arg_min_list stamp (slots c))))"

definition evict :: "evicting_index \<Rightarrow> slot list" where
  "evict c = filter (\<lambda>sl. Some (fst sl) \<noteq> lru_key c) (slots c)"

text \<open>
  Modelled from the spec: \<open>put\<close>.  A key that is present gets its new value and counts as
  used.  A new key is admitted as it is while there is room; when admitting it would exceed
  \<open>max_entries\<close>, the least recently used entry is evicted first.
\<close>

definition ei_put :: "pyval \<Rightarrow> pyval \<Rightarrow> evicting_index \<Rightarrow> evicting_index" where
  "ei_put k v c =
     (let kept = (if k \<in> set (ei_keys c) then filter (\<lambda>sl. fst sl \<noteq> k) (slots c)
                  else if length (slots c) < max_entries c then slots c
                  else evict c)
      in c\<lparr>slots := kept @ [(k, v, clock c)], clock := Suc (clock c)\<rparr>)"

text \<open>
  Modelled from the spec: a lookup that finds the key counts as a use of it
  ("least-recently-accessed").
\<close>

definition ei_get :: "pyval \<Rightarrow> evicting_index \<Rightarrow> pyval option \<times> evicting_index" where
  "ei_get k c =
     (case map_of (slots c) k of
        None \<Rightarrow> (None, c)
      | Some (v, t) \<Rightarrow>
          (Some v, c\<lparr>slots := filter (\<lambda>sl. fst sl \<noteq> k) (slots c) @ [(k, v, clock c)],
                     clock := Suc (clock c)\<rparr>))"

text \<open>
  Modelled from the spec: inserting keys one after the other, and the invariant of a
  container with a positive capacity: at most \<open>max_entries\<close> slots, no key twice, the
  slots in the order of their last use, every last use in the past.
\<close>

definition ei_insert_all :: "(pyval \<times> pyval) list \<Rightarrow> evicting_index \<Rightarrow> evicting_index" where
  "ei_insert_all kvs c = foldl (\<lambda>acc kv. ei_put (fst kv) (snd kv) acc) c kvs"

definition ei_inv :: "evicting_index \<Rightarrow> bool" where
  "ei_inv c =
     (0 < max_entries c \<and> length (slots c) \<le> max_entries c \<and> distinct (ei_keys c) \<and>
      sorted_wrt (<) (map stamp (slots c)) \<and> list_all (\<lambda>sl. stamp sl < clock c) (slots c))"

section \<open>What a save pass does, entry by entry\<close>

text \<open>
  An entry takes part in \<^verbatim>\<open>save()\<close> when its name is bound to a file, it is not flagged
  no-save and its value is not empty.  For such an entry \<open>save_attempt\<close> is the outcome of
  its \<^verbatim>\<open>smart_save\<close>, \<open>save_write\<close> the write it leaves, \<open>save_log\<close> what is logged.
\<close>

definition persist_eligible :: "datamanager \<Rightarrow> string \<times> pydata \<Rightarrow> bool" where
  "persist_eligible s p = (in_filemanager (fst p) s \<and> fst p \<notin> set (do_not_save s) \<and> truthy (snd p))"

definition save_attempt :: "env \<Rightarrow> datamanager \<Rightarrow> string \<times> pydata \<Rightarrow> exn option" where
  "save_attempt e s p = fm_smart_save e (fst p) (snd p) None (kwargs_get (save_kwargs s) (fst p))"

definition save_write :: "env \<Rightarrow> datamanager \<Rightarrow> string \<times> pydata \<Rightarrow> disk_write list" where
  "save_write e s p =
     (if persist_eligible s p \<and> save_attempt e s p = None
      then [(fst p, snd p, None, kwargs_get (save_kwargs s) (fst p))] else [])"

definition save_log :: "env \<Rightarrow> datamanager \<Rightarrow> string \<times> pydata \<Rightarrow> exn list" where
  "save_log e s p = (if persist_eligible s p then printed_of (save_attempt e s p) else [])"

section \<open>Decimal numerals\<close>

lemma digit_val_char: "d < 10 \<Longrightarrow> digit_val (digit_char d) = d"
proof -
  assume "d < 10"
  then have "d \<in> {0, 1, 2, 3, 4, 5, 6, 7, 8, 9}"
    by auto
  then show ?thesis
    by (auto simp: digit_val_def digit_char_def)
qed

lemma nat_of_digits_snoc: "nat_of_digits (ds @ [c]) = 10 * nat_of_digits ds + digit_val c"
  by (simp add: nat_of_digits_def)

lemma nat_of_digits_str_nat: "nat_of_digits (str_nat n) = n"
proof (induction n rule: str_nat.induct)
  case (1 n)
  show ?case
  proof (cases "n < 10")
    case True
    then show ?thesis
      by (simp add: str_nat.simps [of n] nat_of_digits_def digit_val_char)
  next
    case False
    with 1 show ?thesis
      by (simp add: str_nat.simps [of n] nat_of_digits_snoc digit_val_char)
  qed
qed

lemma inj_str_nat: "inj str_nat"
  by (rule inj_on_inverseI [where g = nat_of_digits]) (rule nat_of_digits_str_nat)

lemma inj_on_str_int: "inj_on str_int {100000..999999}"
proof (rule inj_onI)
  fix x y :: int
  assume "x \<in> {100000..999999}" "y \<in> {100000..999999}" "str_int x = str_int y"
  then have "str_nat (nat x) = str_nat (nat y)" "0 \<le> x" "0 \<le> y"
    by (simp_all add: str_int_def)
  then show "x = y"
    using inj_str_nat by (auto dest: injD)
qed

lemma length_str_nat:
  "length (str_nat n) = (if n < 10 then 1 else Suc (length (str_nat (n div 10))))"
  by (subst str_nat.simps) simp

lemma six_digits: "100000 \<le> n \<Longrightarrow> n \<le> 999999 \<Longrightarrow> length (str_nat n) = 6"
  apply (subst length_str_nat, simp)
  apply (subst length_str_nat, simp)
  apply (subst length_str_nat, simp add: div_mult2_eq [symmetric])
  apply (subst length_str_nat, simp add: div_mult2_eq [symmetric])
  apply (subst length_str_nat, simp add: div_mult2_eq [symmetric])
  apply (subst length_str_nat, simp add: div_mult2_eq [symmetric])
  apply arith
  done

section \<open>What each operation leaves alone\<close>

lemma setitem_fields [simp]:
  "session_id (setitem name v s) = session_id s"
  "save_daemon (setitem name v s) = save_daemon s"
  "do_not_append_session_id (setitem name v s) = do_not_append_session_id s"
  "filemanager (setitem name v s) = filemanager s"
  "do_not_save (setitem name v s) = do_not_save s"
  "save_kwargs (setitem name v s) = save_kwargs s"
  "written (setitem name v s) = written s"
  "logged (setitem name v s) = logged s"
  "data (setitem name v s) = AList.update name v (data s)"
  by (simp_all add: setitem_def)

lemma note_suffix_fields [simp]:
  "session_id (note_suffix name a s) = session_id s"
  "save_daemon (note_suffix name a s) = save_daemon s"
  "data (note_suffix name a s) = data s"
  "filemanager (note_suffix name a s) = filemanager s"
  "do_not_save (note_suffix name a s) = do_not_save s"
  by (simp_all add: note_suffix_def)

lemma register_fields [simp]:
  "session_id (register name d display a s) = session_id s"
  "save_daemon (register name d display a s) = save_daemon s"
  by (simp_all add: register_def Let_def)

lemma call_method_fields [simp]:
  "session_id (snd (call_method m name arg s)) = session_id s"
  "save_daemon (snd (call_method m name arg s)) = save_daemon s"
  by (simp_all add: call_method_def split: option.split)

lemma load_fields [simp]:
  "session_id (snd (load d ld name s)) = session_id s"
  "save_daemon (snd (load d ld name s)) = save_daemon s"
  by (simp_all add: load_def Let_def)

lemma record_options_fields [simp]:
  "session_id (record_options name display sv skw lkw s) = session_id s"
  "save_daemon (record_options name display sv skw lkw s) = save_daemon s"
  "data (record_options name display sv skw lkw s) = data s"
  "do_not_append_session_id (record_options name display sv skw lkw s) = do_not_append_session_id s"
  "filemanager (record_options name display sv skw lkw s) = filemanager s"
  by (simp_all add: record_options_def Let_def)

lemma bind_file_fields [simp]:
  "session_id (bind_file name p s) = session_id s"
  "save_daemon (bind_file name p s) = save_daemon s"
  "data (bind_file name p s) = data s"
  "do_not_append_session_id (bind_file name p s) = do_not_append_session_id s"
  by (simp_all add: bind_file_def Let_def)

lemma register_file_fields [simp]:
  "session_id (snd (register_file e name d p display l sv skw lkw s)) = session_id s"
  "save_daemon (snd (register_file e name d p display l sv skw lkw s)) = save_daemon s"
  by (simp_all add: register_file_def Let_def split: sum.split)

lemma create_cache_fields [simp]:
  "session_id (snd (create_cache d ld name dir s)) = session_id s"
  "save_daemon (snd (create_cache d ld name dir s)) = save_daemon s"
  by (simp_all add: create_cache_def Let_def split: sum.split)

lemma register_cache_fields [simp]:
  "session_id (snd (register_cache e name d p display l sv skw lkw dir a s)) = session_id s"
  "save_daemon (snd (register_cache e name d p display l sv skw lkw dir a s)) = save_daemon s"
  by (simp_all add: register_cache_def Let_def split: sum.split)

lemma smart_save_fields [simp]:
  "session_id (snd (smart_save e name v mode kw s)) = session_id s"
  "save_daemon (snd (smart_save e name v mode kw s)) = save_daemon s"
  by (simp_all add: smart_save_def split: option.split)


lemma save_loop_fields:
  "session_id (snd (save_loop e items s)) = session_id s \<and>
   save_daemon (snd (save_loop e items s)) = save_daemon s"
proof (induction items arbitrary: s)
  case Nil
  show ?case by simp
next
  case (Cons a items)
  obtain name v where a: "a = (name, v)" by (cases a)
  show ?case
    unfolding a save_loop.simps
    by (simp add: smart_save_def Cons.IH split: option.split)
qed

lemma save_caches_loop_fields:
  "session_id (snd (save_caches_loop e items s)) = session_id s \<and>
   save_daemon (snd (save_caches_loop e items s)) = save_daemon s"
proof (induction items arbitrary: s)
  case Nil
  show ?case by simp
next
  case (Cons a items)
  obtain name v where a: "a = (name, v)" by (cases a)
  show ?case
    unfolding a save_caches_loop.simps
    by (simp add: smart_save_def Let_def Cons.IH split: option.split)
qed

lemma clean_loop_fields:
  "session_id (snd (clean_loop e items s)) = session_id s \<and>
   save_daemon (snd (clean_loop e items s)) = save_daemon s"
proof (induction items arbitrary: s)
  case Nil
  show ?case by simp
next
  case (Cons a items)
  obtain name v where a: "a = (name, v)" by (cases a)
  show ?case
    unfolding a clean_loop.simps
    by (simp add: Let_def Cons.IH split: option.split prod.split)
qed

lemma exec_session_id: "session_id (exec e c s) = session_id s"
  by (cases c)
     (simp_all add: save_def save_caches_def clean_def save_loop_fields save_caches_loop_fields
        clean_loop_fields file_update_def start_save_daemon_def stop_daemon_def Let_def)

lemma exec_all_session_id: "session_id (exec_all e cs s) = session_id s"
  unfolding exec_all_def
  by (induction cs arbitrary: s) (simp_all add: exec_session_id)

lemma exec_daemon:
  "funcs (save_daemon (exec e c s)) = funcs (save_daemon s) \<and>
   (go (save_daemon (exec e c s)) \<longrightarrow> go (save_daemon s)) \<and>
   (started (save_daemon s) \<longrightarrow> started (save_daemon (exec e c s)))"
  by (cases c)
     (simp_all add: save_def save_caches_def clean_def save_loop_fields save_caches_loop_fields
        clean_loop_fields file_update_def start_save_daemon_def stop_daemon_def Let_def)

lemma run_callback_fields:
  "session_id (snd (run_callback e cb s)) = session_id s \<and>
   save_daemon (snd (run_callback e cb s)) = save_daemon s"
  by (cases cb) (simp_all add: save_def save_caches_def save_loop_fields save_caches_loop_fields)

section \<open>Session identity\<close>

lemma str_int_123456: "str_int 123456 = ''123456''"
  by (simp add: str_int_def str_nat.simps digit_char_def)

lemma range_randint: "a \<le> b \<Longrightarrow> range (randint a b) = {a..b}"
proof (rule set_eqI, rule iffI)
  fix r
  assume ab: "a \<le> b" and "r \<in> range (randint a b)"
  then obtain seed where r: "r = a + int (seed mod nat (b - a + 1))"
    by (auto simp: randint_def)
  have "seed mod nat (b - a + 1) < nat (b - a + 1)"
    using ab by (intro mod_less_divisor) simp
  then have "int (seed mod nat (b - a + 1)) < int (nat (b - a + 1))"
    by (simp only: of_nat_less_iff)
  moreover have "int (nat (b - a + 1)) = b - a + 1"
    using ab by simp
  ultimately show "r \<in> {a..b}"
    using r by simp
next
  fix r
  assume ab: "a \<le> b" and "r \<in> {a..b}"
  then have "nat (r - a) < nat (b - a + 1)" by auto
  then have "randint a b (nat (r - a)) = r"
    using \<open>r \<in> {a..b}\<close> by (simp add: randint_def)
  then show "r \<in> range (randint a b)"
    by (metis rangeI)
qed

lemma session_id_init: "session_id (init cls items seed) = str_int (randint 100000 999999 seed)"
  by (simp add: init_def)

lemma session_ids_range:
  "range (\<lambda>seed. session_id (init cls items seed)) = str_int ` {100000..999999}"
proof -
  have "range (\<lambda>seed. session_id (init cls items seed)) = str_int ` range (randint 100000 999999)"
    by (auto simp: session_id_init)
  then show ?thesis
    by (simp add: range_randint)
qed

lemma dm0_fields [simp]:
  "data dm0 = []"
  "do_not_append_session_id dm0 = []"
  "filemanager dm0 = []"
  "do_not_save dm0 = []"
  "do_not_display dm0 = []"
  "save_kwargs dm0 = []"
  "load_kwargs dm0 = []"
  "written dm0 = []"
  "logged dm0 = []"
  "removed dm0 = []"
  by (simp_all add: dm0_def init_def class_body_def)

lemma dm0_daemon [simp]:
  "save_daemon dm0 = \<lparr> go = True, sleep = 15, funcs = [CbSave, CbSaveCaches], started = False \<rparr>"
  by (simp add: dm0_def init_def)

lemma session_id_dm0 [simp]: "session_id dm0 = ''123456''"
  by (simp add: dm0_def session_id_init randint_def str_int_123456)

text \<open>
  Claim C7.  \<^verbatim>\<open>__init__\<close> assigns the session id: the decimal rendering of the number that
  \<^verbatim>\<open>randint(100000, 999999)\<close> draws.  Over the states of the generator the ids that can
  come out are exactly the renderings of 100000 to 999999: 900000 different strings, each
  of six characters.  No sequence of registry calls (register, register_file,
  register_cache, load, get, file_update, save, save_caches, clean, starting and stopping
  the daemon), in any environment and whether or not calls raise, changes the session id
  of the instance.
\<close>

theorem session_id_fixed_at_construction:
  "range (\<lambda>seed. session_id (init cls items seed)) = str_int ` {100000..999999} \<and>
   card (range (\<lambda>seed. session_id (init cls items seed))) = 900000 \<and>
   (\<forall>seed. length (session_id (init cls items seed)) = 6) \<and>
   (\<forall>e cs s. session_id (exec_all e cs s) = session_id s)"
proof -
  have "card (str_int ` {100000..999999}) = card {100000..999999::int}"
    using inj_on_str_int by (rule card_image)
  then have c: "card (range (\<lambda>seed. session_id (init cls items seed))) = 900000"
    by (simp add: session_ids_range)
  have l: "length (session_id (init cls items seed)) = 6" for seed
  proof -
    have "randint 100000 999999 seed \<in> range (randint 100000 999999)"
      by (rule rangeI)
    then have "randint 100000 999999 seed \<in> {100000..999999}"
      by (simp add: range_randint)
    then have "100000 \<le> nat (randint 100000 999999 seed)"
      "nat (randint 100000 999999 seed) \<le> 999999" "\<not> randint 100000 999999 seed < 0"
      by (simp_all add: le_nat_iff nat_le_iff)
    then show ?thesis
      unfolding session_id_init str_int_def by (simp add: six_digits)
  qed
  show ?thesis
    using c l session_ids_range [of cls items] by (simp add: exec_all_session_id)
qed

theorem session_id_fixed_at_construction_witness:
  "session_id (init class_body [] 23456) = ''123456'' \<and>
   length (session_id (init class_body [] 23456)) = 6 \<and>
   session_id (exec_all env0
      [Register ''foo'' (PySet [PInt 1]) True False, StopDaemon, Save, Clean, Get ''foo'' py_None]
      (init class_body [] 23456)) = ''123456''"
proof -
  note t = session_id_fixed_at_construction [of class_body "[]"]
  have a: "session_id (init class_body [] 23456) = ''123456''"
    using session_id_dm0 by (simp add: dm0_def)
  have b: "length (session_id (init class_body [] 23456)) = 6"
    using t [THEN conjunct2, THEN conjunct2, THEN conjunct1, rule_format, of 23456] .
  have d: "session_id (exec_all e cs (init class_body [] 23456)) =
      session_id (init class_body [] 23456)" for e cs
    using t [THEN conjunct2, THEN conjunct2, THEN conjunct2, rule_format] .
  show ?thesis
    using a b d [of env0] by simp
qed

section \<open>Saving the in-memory entries\<close>

lemma save_loop_result:
  "save_loop e items s =
     (None, s\<lparr>written := written s @ concat (map (save_write e s) items),
              logged := logged s @ concat (map (save_log e s) items)\<rparr>)"
proof (induction items arbitrary: s)
  case Nil
  show ?case by simp
next
  case (Cons p items)
  obtain name v where p: "p = (name, v)" by (cases p)
  have inv: "save_write e (s\<lparr>written := w, logged := l\<rparr>) = save_write e s"
       "save_log e (s\<lparr>written := w, logged := l\<rparr>) = save_log e s"
       "save_write e (s\<lparr>written := w\<rparr>) = save_write e s"
       "save_log e (s\<lparr>written := w\<rparr>) = save_log e s"
       "save_write e (s\<lparr>logged := l\<rparr>) = save_write e s"
       "save_log e (s\<lparr>logged := l\<rparr>) = save_log e s" for w l
    by (simp_all add: fun_eq_iff save_write_def save_log_def persist_eligible_def
          save_attempt_def in_filemanager_def)
  show ?case
  proof (cases "persist_eligible s p")
    case False
    then have sk: "\<not> in_filemanager name s \<or> name \<in> set (do_not_save s) \<or> \<not> truthy v"
      by (simp add: persist_eligible_def p)
    have "save_write e s (name, v) = []" "save_log e s (name, v) = []"
      using False by (simp_all add: save_write_def save_log_def p)
    moreover have "save_loop e ((name, v) # items) s = save_loop e items s"
      using sk by auto
    ultimately show ?thesis
      unfolding p by (simp add: Cons.IH)
  next
    case True
    then have el: "in_filemanager name s" "name \<notin> set (do_not_save s)" "truthy v"
      by (simp_all add: persist_eligible_def p)
    show ?thesis
    proof (cases "save_attempt e s p")
      case None
      then have f: "fm_smart_save e name v None (kwargs_get (save_kwargs s) name) = None"
        by (simp add: save_attempt_def p)
      have "save_write e s (name, v) = [(name, v, None, kwargs_get (save_kwargs s) name)]"
           "save_log e s (name, v) = []"
        using True None by (simp_all add: save_write_def save_log_def p)
      moreover have "save_loop e ((name, v) # items) s =
          save_loop e items (s\<lparr>written := written s @ [(name, v, None, kwargs_get (save_kwargs s) name)]\<rparr>)"
        using el f by (simp add: smart_save_def)
      ultimately show ?thesis
        unfolding p by (simp add: Cons.IH inv)
    next
      case (Some err)
      then have f: "fm_smart_save e name v None (kwargs_get (save_kwargs s) name) = Some err"
        by (simp add: save_attempt_def p)
      have "save_write e s (name, v) = []" "save_log e s (name, v) = [err]"
        using True Some by (simp_all add: save_write_def save_log_def p)
      moreover have "save_loop e ((name, v) # items) s =
          save_loop e items (s\<lparr>logged := logged s @ [err]\<rparr>)"
        using el f by (simp add: smart_save_def)
      ultimately show ?thesis
        unfolding p by (simp add: Cons.IH inv)
    qed
  qed
qed

text \<open>
  Claim C3.  \<^verbatim>\<open>save()\<close> never raises.  Every entry that is persist-eligible (bound to a
  file, not flagged no-save, not empty) is handed to the file layer: when its own
  serialization succeeds it is written, whatever happened to the entries before it, and
  when it fails the exception is logged.
\<close>

theorem save_isolates_failures:
  "fst (save e s) = None \<and>
   (\<forall>p \<in> set (data s). persist_eligible s p \<longrightarrow>
      (case fm_smart_save e (fst p) (snd p) None (kwargs_get (save_kwargs s) (fst p)) of
         None \<Rightarrow> (fst p, snd p, None, kwargs_get (save_kwargs s) (fst p))
                   \<in> set (written (snd (save e s)))
       | Some err \<Rightarrow> err \<in> set (logged (snd (save e s)))))"
proof -
  have w: "(fst p, snd p, None, kwargs_get (save_kwargs s) (fst p)) \<in> set (written (snd (save e s)))"
    if "p \<in> set (data s)" "persist_eligible s p" "save_attempt e s p = None" for p
  proof -
    have "(fst p, snd p, None, kwargs_get (save_kwargs s) (fst p)) \<in> set (save_write e s p)"
      using that by (simp add: save_write_def)
    with that(1) show ?thesis
      by (auto simp: save_def save_loop_result)
  qed
  have l: "err \<in> set (logged (snd (save e s)))"
    if "p \<in> set (data s)" "persist_eligible s p" "save_attempt e s p = Some err" for p err
  proof -
    have "err \<in> set (save_log e s p)"
      using that by (simp add: save_log_def)
    with that(1) show ?thesis
      by (auto simp: save_def save_loop_result)
  qed
  have n: "fst (save e s) = None"
    by (simp add: save_def save_loop_result)
  show ?thesis
    using w l n unfolding save_attempt_def by (auto split: option.split)
qed

lemma path_split_simple [simp]:
  "path_split ''a.txt'' = ([], ''a.txt'')" "path_split ''b.txt'' = ([], ''b.txt'')"
  by (simp_all add: path_split_def)

lemma two_files_fields:
  "data two_files = [(''a'', PyList [PInt 1]), (''b'', PyList [PInt 2])]"
  "filemanager two_files = [(''a'', ''.'', ''a.txt''), (''b'', ''.'', ''b.txt'')]"
  "do_not_save two_files = []"
  "save_kwargs two_files = []"
  "written two_files = []"
  "logged two_files = []"
  by (simp_all add: two_files_def exec_all_def register_file_def env0_def Let_def register_def
        stored_name_def note_suffix_def bind_file_def record_options_def setitem_def)

lemma two_caches_fields:
  "data two_caches = [(''a'', CacheSet [PInt 1] ''cache/./a''), (''b'', Deque [PInt 2] ''cache/./b'')]"
  "filemanager two_caches = [(''a'', ''.'', ''a.txt''), (''b'', ''.'', ''b.txt'')]"
  "do_not_save two_caches = []"
  "save_kwargs two_caches = []"
  "written two_caches = []"
  by (simp_all add: two_caches_def exec_all_def register_cache_def env0_def Let_def create_cache_def
        stored_name_def note_suffix_def bind_file_def record_options_def setitem_def
        cache_path_def path_join_def path_join2_def numericize_def numericize_elem_def)


lemma path_split_more [simp]:
  "path_split ''c.txt'' = ([], ''c.txt'')" "path_split ''m.json'' = ([], ''m.json'')"
  by (simp_all add: path_split_def)

lemma empty_and_map_fields:
  "data empty_and_map =
     [(''c'', CacheSet [] ''cache/./c''), (''m'', EvictingIndex ''cache/./m'' [(PStr ''k'', PInt 1)])]"
  "filemanager empty_and_map = [(''c'', ''.'', ''c.txt''), (''m'', ''.'', ''m.json'')]"
  "do_not_save empty_and_map = []"
  "save_kwargs empty_and_map = []"
  "written empty_and_map = []"
  "logged empty_and_map = []"
  by (simp_all add: empty_and_map_def exec_all_def register_cache_def env0_def Let_def
        create_cache_def stored_name_def note_suffix_def bind_file_def record_options_def
        setitem_def cache_path_def path_join_def path_join2_def py_kwargs_def)

theorem save_isolates_failures_witness:
  "(''b'', PyList [PInt 2]) \<in> set (data two_files) \<and>
   persist_eligible two_files (''a'', PyList [PInt 1]) \<and>
   persist_eligible two_files (''b'', PyList [PInt 2]) \<and>
   fm_smart_save (env_locked ''a'') ''a'' (PyList [PInt 1]) None [] = Some (OtherError ''locked'') \<and>
   fst (save (env_locked ''a'') two_files) = None \<and>
   OtherError ''locked'' \<in> set (logged (snd (save (env_locked ''a'') two_files))) \<and>
   (''b'', PyList [PInt 2], None, []) \<in> set (written (snd (save (env_locked ''a'') two_files)))"
proof -
  note t = save_isolates_failures [of "env_locked ''a''" two_files]
  have ma: "(''a'', PyList [PInt 1]) \<in> set (data two_files)"
    and mb: "(''b'', PyList [PInt 2]) \<in> set (data two_files)"
    by (simp_all add: two_files_fields)
  have ea: "persist_eligible two_files (''a'', PyList [PInt 1])"
    and eb: "persist_eligible two_files (''b'', PyList [PInt 2])"
    by (simp_all add: persist_eligible_def in_filemanager_def two_files_fields)
  have fa: "fm_smart_save (env_locked ''a'') ''a'' (PyList [PInt 1]) None [] = Some (OtherError ''locked'')"
    and fb: "fm_smart_save (env_locked ''a'') ''b'' (PyList [PInt 2]) None [] = None"
    by (simp_all add: env_locked_def)
  have k: "kwargs_get (save_kwargs two_files) n = []" for n
    by (simp add: kwargs_get_def two_files_fields)
  from t have n: "fst (save (env_locked ''a'') two_files) = None"
    by (rule conjunct1)
  from t [THEN conjunct2, rule_format, OF ma ea] fa k
  have la: "OtherError ''locked'' \<in> set (logged (snd (save (env_locked ''a'') two_files)))"
    by simp
  from t [THEN conjunct2, rule_format, OF mb eb] fb k
  have wb: "(''b'', PyList [PInt 2], None, []) \<in> set (written (snd (save (env_locked ''a'') two_files)))"
    by simp
  show ?thesis
    using mb ea eb fa n la wb by simp
qed

section \<open>Lookup by bare name\<close>

lemma register_unsuffixed:
  "data (register n v display False s) = AList.update n v (data s)"
  "do_not_append_session_id (register n v display False s) =
     do_not_append_session_id s @ [n @ session_id s]"
  by (simp_all add: register_def stored_name_def note_suffix_def Let_def setitem_def)

lemma get_after_register:
  "get n optional (register n v display False s) =
     (let k = replace (session_id s) [] (n @ session_id s)
      in if k = n then v else (case map_of (data s) k of None \<Rightarrow> optional | Some w \<Rightarrow> w))"
  by (simp add: get_def register_unsuffixed Let_def update_conv')

lemma length_replace_le: "old \<noteq> [] \<Longrightarrow> length (replace old [] xs) \<le> length xs"
proof (induction old "[] :: string" xs rule: replace.induct)
  case (1 old)
  then show ?case by simp
next
  case (2 old c cs)
  then show ?case by (auto simp: le_diff_conv)
qed

lemma length_replace_suffix:
  "old \<noteq> [] \<Longrightarrow> suffix old xs \<Longrightarrow> length (replace old [] xs) + length old \<le> length xs"
proof (induction old "[] :: string" xs rule: replace.induct)
  case (1 old)
  then show ?case by simp
next
  case (2 old c cs)
  show ?case
  proof (cases "prefix old (c # cs)")
    case True
    have "length (replace old [] (drop (length old) (c # cs))) \<le> length (drop (length old) (c # cs))"
      using 2(4) by (rule length_replace_le)
    moreover have "length old \<le> length (c # cs)"
      using True by (rule prefix_length_le)
    ultimately show ?thesis
      using True 2(4) by simp
  next
    case False
    then have "old \<noteq> c # cs" by auto
    with 2(5) have "suffix old cs" by (simp add: suffix_Cons)
    with 2 False show ?thesis by simp
  qed
qed

lemma length_replace_twice_aux:
  "old \<noteq> [] \<Longrightarrow> xs = n @ old \<Longrightarrow> sublist old n \<Longrightarrow>
     length (replace old [] xs) + 2 * length old \<le> length xs"
proof (induction old "[] :: string" xs arbitrary: n rule: replace.induct)
  case (1 old)
  then show ?case by simp
next
  case (2 old c cs)
  note ne = "2.prems"(1) and xs = "2.prems"(2) and sub = "2.prems"(3)
  from sub obtain a b where n: "n = a @ old @ b"
    by (auto simp: sublist_def)
  show ?case
  proof (cases "prefix old (c # cs)")
    case True
    have le: "length old \<le> length n" using n by simp
    have "drop (length old) (c # cs) = drop (length old) n @ old"
      unfolding xs using le by simp
    then have "suffix old (drop (length old) (c # cs))"
      by (simp add: suffix_def)
    then have "length (replace old [] (drop (length old) (c # cs))) + length old
        \<le> length (drop (length old) (c # cs))"
      using ne by (intro length_replace_suffix)
    moreover have "replace old [] (c # cs) = replace old [] (drop (length old) (c # cs))"
      using True ne by simp
    moreover have "length old \<le> length (c # cs)"
      using True by (rule prefix_length_le)
    ultimately show ?thesis
      by simp
  next
    case False
    have "a \<noteq> []"
    proof
      assume "a = []"
      then have "prefix old (c # cs)" unfolding xs n by simp
      with False show False by simp
    qed
    then obtain a' where a: "a = c # a'"
      using xs n by (cases a) auto
    have cs: "cs = (a' @ old @ b) @ old" using xs n a by simp
    have "sublist old (a' @ old @ b)" by (auto simp: sublist_def)
    with 2(3) [OF ne False ne cs]
    have "length (replace old [] cs) + 2 * length old \<le> length cs" .
    moreover have "replace old [] (c # cs) = c # replace old [] cs"
      using False ne by simp
    ultimately show ?thesis
      by simp
  qed
qed

lemma length_replace_twice:
  "old \<noteq> [] \<Longrightarrow> sublist old n \<Longrightarrow>
     length (replace old [] (n @ old)) + length old \<le> length n"
  using length_replace_twice_aux [of old "n @ old" n] by simp

lemma unsuffixed_fields [simp]:
  "do_not_append_session_id (snd (call_method m name arg s)) = do_not_append_session_id s"
  "do_not_append_session_id (snd (load d ld name s)) = do_not_append_session_id s"
  "do_not_append_session_id (snd (create_cache d ld name dir s)) = do_not_append_session_id s"
  "do_not_append_session_id (snd (smart_save e name v mode kw s)) = do_not_append_session_id s"
  by (simp_all add: call_method_def load_def create_cache_def smart_save_def Let_def
        split: option.split sum.split)

lemma note_suffix_unsuffixed:
  "do_not_append_session_id (note_suffix n a s) =
     (if a then do_not_append_session_id s else do_not_append_session_id s @ [n @ session_id s])"
  by (simp add: note_suffix_def)

lemma register_unsuffixed_mono:
  "set (do_not_append_session_id s) \<subseteq> set (do_not_append_session_id (register n d display a s))"
  by (auto simp: register_def Let_def note_suffix_unsuffixed)

lemma register_file_unsuffixed_mono:
  "set (do_not_append_session_id s)
     \<subseteq> set (do_not_append_session_id (snd (register_file e n d p display l sv skw lkw s)))"
  using register_unsuffixed_mono [of "bind_file n p (record_options n display sv skw lkw s)"]
  by (auto simp: register_file_def Let_def split: sum.split)

lemma register_cache_unsuffixed_mono:
  "set (do_not_append_session_id s)
     \<subseteq> set (do_not_append_session_id (snd (register_cache e n d p display l sv skw lkw dir a s)))"
  by (auto simp: register_cache_def Let_def note_suffix_unsuffixed split: sum.split)

lemma save_loop_unsuffixed:
  "do_not_append_session_id (snd (save_loop e items s)) = do_not_append_session_id s"
  by (simp add: save_loop_result)

lemma save_caches_loop_unsuffixed:
  "do_not_append_session_id (snd (save_caches_loop e items s)) = do_not_append_session_id s"
proof (induction items arbitrary: s)
  case Nil
  show ?case by simp
next
  case (Cons a items)
  obtain name v where a: "a = (name, v)" by (cases a)
  show ?case
    unfolding a save_caches_loop.simps
    by (simp add: smart_save_def Let_def Cons.IH split: option.split)
qed

lemma clean_loop_unsuffixed:
  "do_not_append_session_id (snd (clean_loop e items s)) = do_not_append_session_id s"
proof (induction items arbitrary: s)
  case Nil
  show ?case by simp
next
  case (Cons a items)
  obtain name v where a: "a = (name, v)" by (cases a)
  show ?case
    unfolding a clean_loop.simps
    by (simp add: Let_def Cons.IH split: option.split prod.split)
qed

lemma exec_unsuffixed_mono:
  "set (do_not_append_session_id s) \<subseteq> set (do_not_append_session_id (exec e c s))"
proof (cases c)
  case (Register n d display a)
  then show ?thesis using register_unsuffixed_mono by simp
next
  case (RegisterFile n d p display l sv skw lkw)
  then show ?thesis using register_file_unsuffixed_mono by simp
next
  case (RegisterCache n d p display l sv skw lkw dir a)
  then show ?thesis using register_cache_unsuffixed_mono by simp
qed (simp_all add: save_def save_caches_def clean_def save_loop_unsuffixed
       save_caches_loop_unsuffixed clean_loop_unsuffixed file_update_def
       start_save_daemon_def stop_daemon_def Let_def setitem_def)

lemma exec_all_unsuffixed_mono:
  "set (do_not_append_session_id s) \<subseteq> set (do_not_append_session_id (exec_all e cs s))"
proof (induction cs arbitrary: s)
  case Nil
  show ?case by (simp add: exec_all_def)
next
  case (Cons c cs)
  have "exec_all e (c # cs) s = exec_all e cs (exec e c s)"
    by (simp add: exec_all_def)
  with Cons [of "exec e c s"] exec_unsuffixed_mono [of s e c] show ?case
    by auto
qed

lemma get_unsuffixed:
  "n @ session_id s \<in> set (do_not_append_session_id s) \<Longrightarrow>
     get n optional s =
       (case map_of (data s) (replace (session_id s) [] (n @ session_id s)) of
          None \<Rightarrow> optional | Some w \<Rightarrow> w)"
  by (simp add: get_def)


lemma get_recorded_entry:
  "n @ session_id s \<in> set (do_not_append_session_id s) \<Longrightarrow>
   replace (session_id s) [] (n @ session_id s) = n \<Longrightarrow> map_of (data s) n = Some v \<Longrightarrow>
     get n optional s = v"
  by (simp add: get_unsuffixed)

lemma session_id_123412: "session_id (init class_body [] 23412) = ''123412''"
  by (simp add: session_id_init randint_def str_int_def str_nat.simps digit_char_def)

text \<open>
  Claim C5.  The claim asks that an entry registered under a bare name with
  \<^verbatim>\<open>append_session_id=False\<close> is returned by \<^verbatim>\<open>get\<close> whatever the session id is.  The
  code does not do that.  With session id 123456 the entry registered as \<^verbatim>\<open>a123456\<close>
  is in the dictionary under that name, and \<^verbatim>\<open>get("a123456")\<close> returns the default: the
  key it looks up is \<^verbatim>\<open>a\<close>.  With session id 123412 the same happens to the name
  \<^verbatim>\<open>x1234\<close>, which does not even contain the session id: the key looked up is
  \<^verbatim>\<open>x3412\<close>.
\<close>

theorem get_misses_unsuffixed_entry:
  "map_of (data (register ''a123456'' (PySet [PInt 1]) True False dm0)) ''a123456''
     = Some (PySet [PInt 1]) \<and>
   get ''a123456'' py_None (register ''a123456'' (PySet [PInt 1]) True False dm0) = py_None \<and>
   session_id (init class_body [] 23412) = ''123412'' \<and>
   map_of (data (register ''x1234'' (PySet [PInt 1]) True False (init class_body [] 23412))) ''x1234''
     = Some (PySet [PInt 1]) \<and>
   get ''x1234'' py_None (register ''x1234'' (PySet [PInt 1]) True False (init class_body [] 23412))
     = py_None"
proof -
  have d: "data (init class_body [] 23412) = []"
    by (simp add: init_def)
  show ?thesis
    by (simp add: get_after_register register_unsuffixed update_conv' session_id_123412 d)
qed

text \<open>
  Claim C10, amended.  In any state of the registry, for a name \<open>n\<close> whose composite key
  \<open>n + session_id\<close> is recorded as unsuffixed (by \<^verbatim>\<open>register\<close>, \<^verbatim>\<open>register_file\<close> or
  \<^verbatim>\<open>register_cache\<close>, at any earlier time: the record is never taken back), \<^verbatim>\<open>get\<close>
  looks up the composite key with every occurrence of the session id removed (the
  occurrences that \<^verbatim>\<open>str.replace\<close> finds from the left), not only the trailing one.
  When \<open>n\<close> itself contains the session id, the key looked up is shorter than \<open>n\<close> by
  at least the length of the session id, so it is not \<open>n\<close>, and \<^verbatim>\<open>get(n)\<close> returns the
  default whenever the registry holds nothing under the stripped key.
\<close>

theorem get_strips_every_occurrence:
  assumes "session_id s \<noteq> []" and "sublist (session_id s) n"
    and "n @ session_id s \<in> set (do_not_append_session_id s)"
  shows "length (replace (session_id s) [] (n @ session_id s)) + length (session_id s) \<le> length n \<and>
         get n optional s =
           (case map_of (data s) (replace (session_id s) [] (n @ session_id s)) of
              None \<Rightarrow> optional | Some w \<Rightarrow> w) \<and>
         (map_of (data s) (replace (session_id s) [] (n @ session_id s)) = None \<longrightarrow>
            get n optional s = optional) \<and>
         (\<forall>e cs. n @ session_id (exec_all e cs s) \<in> set (do_not_append_session_id (exec_all e cs s)))"
proof -
  have l: "length (replace (session_id s) [] (n @ session_id s)) + length (session_id s) \<le> length n"
    using assms(1,2) by (rule length_replace_twice)
  have g: "get n optional s =
      (case map_of (data s) (replace (session_id s) [] (n @ session_id s)) of
         None \<Rightarrow> optional | Some w \<Rightarrow> w)"
    using assms(3) by (rule get_unsuffixed)
  have p: "n @ session_id (exec_all e cs s) \<in> set (do_not_append_session_id (exec_all e cs s))" for e cs
    using assms(3) exec_all_unsuffixed_mono [of s e cs] by (auto simp: exec_all_session_id)
  show ?thesis
    using l g p by simp
qed

theorem get_strips_every_occurrence_witness:
  "session_id (register ''y'' (PyList [PInt 7]) True False
      (register ''x123456'' (PySet [PInt 1]) True False dm0)) \<noteq> [] \<and>
   sublist (session_id (register ''y'' (PyList [PInt 7]) True False
      (register ''x123456'' (PySet [PInt 1]) True False dm0))) ''x123456'' \<and>
   ''x123456'' @ session_id (register ''y'' (PyList [PInt 7]) True False
      (register ''x123456'' (PySet [PInt 1]) True False dm0))
     \<in> set (do_not_append_session_id (register ''y'' (PyList [PInt 7]) True False
      (register ''x123456'' (PySet [PInt 1]) True False dm0))) \<and>
   get ''x123456'' py_None (register ''y'' (PyList [PInt 7]) True False
      (register ''x123456'' (PySet [PInt 1]) True False dm0)) = py_None"
proof -
  let ?s = "register ''y'' (PyList [PInt 7]) True False
      (register ''x123456'' (PySet [PInt 1]) True False dm0)"
  have a: "session_id ?s \<noteq> []"
    by simp
  have "''x123456'' = ''x'' @ session_id ?s @ []"
    by simp
  then have b: "sublist (session_id ?s) ''x123456''"
    unfolding sublist_def by blast
  have c: "''x123456'' @ session_id ?s \<in> set (do_not_append_session_id ?s)"
    by (simp add: register_unsuffixed)
  have d: "map_of (data ?s) (replace (session_id ?s) [] (''x123456'' @ session_id ?s)) = None"
    by (simp add: register_unsuffixed update_conv')
  from get_strips_every_occurrence [OF a b c, of py_None] d a b c
  show ?thesis by simp
qed

text \<open>
  With session id 123456 and entries registered unsuffixed as \<^verbatim>\<open>x123456\<close> and then as
  \<^verbatim>\<open>x\<close>, \<^verbatim>\<open>get("x123456")\<close> returns the entry of \<^verbatim>\<open>x\<close>, not the default.
\<close>

theorem get_strips_counterexample:
  "get ''x123456'' py_None
     (register ''x'' (PyList [PInt 7]) True False
        (register ''x123456'' (PySet [PInt 1]) True False dm0)) = PyList [PInt 7]"
  by (simp add: get_unsuffixed register_unsuffixed update_conv')

section \<open>Saving the containers\<close>

lemma kwargs_get_nil [simp]: "kwargs_get [] n = []"
  by (simp add: kwargs_get_def)

text \<open>
  Claim C2.  The claim asks that a failing write does not end a pass of
  \<^verbatim>\<open>save_caches\<close>.  The code does not do that: the loop of \<^verbatim>\<open>save_caches\<close> has no
  \<^verbatim>\<open>try\<close> (the loop of \<^verbatim>\<open>save\<close> has one).  With two containers bound to files and a
  file layer that raises for the first, \<^verbatim>\<open>save_caches\<close> raises that exception and writes
  nothing, the second container included; with a file layer that does not raise, both are
  written.
\<close>

theorem save_caches_aborts_on_failure:
  "save_caches (env_locked ''a'') two_caches = (Some (OtherError ''locked''), two_caches) \<and>
   written two_caches = [] \<and>
   written (snd (save_caches env0 two_caches)) =
     [(''a'', PyList [PInt 1], Some ''w+'', []), (''b'', PyList [PInt 2], Some ''w+'', [])]"
  by (simp add: save_caches_def two_caches_fields in_filemanager_def smart_save_def env_locked_def
        env0_def py_list_def)

text \<open>
  Claim C8.  The claim asks that \<^verbatim>\<open>save_caches\<close> goes through persist-eligible
  containers only and opens every target for overwrite.  On a registry with an empty set
  container and a map container, both bound to files, the code flushes the empty container
  (as the empty list; \<^verbatim>\<open>save\<close> skips an empty value) and hands the map snapshot over
  without a \<^verbatim>\<open>mode\<close> argument (the list snapshot gets \<^verbatim>\<open>mode='w+'\<close>).
\<close>

theorem save_caches_flushes_empty_container:
  "\<not> persist_eligible empty_and_map (''c'', CacheSet [] ''cache/./c'') \<and>
   written (snd (save_caches env0 empty_and_map)) =
     [(''c'', PyList [], Some ''w+'', []),
      (''m'', PyDict [(PStr ''k'', PInt 1)], None, [])] \<and>
   written (snd (save env0 empty_and_map)) =
     [(''m'', EvictingIndex ''cache/./m'' [(PStr ''k'', PInt 1)], None, [])]"
  by (simp add: save_caches_def save_def empty_and_map_fields in_filemanager_def smart_save_def
        env0_def py_list_def py_dict_def persist_eligible_def)

section \<open>What seeds a container\<close>




lemma entry_setitem [simp]: "map_of (data (setitem name v s)) name = Some v"
  by (simp add: update_conv')













section \<open>Merging loaded data into an entry\<close>

















section \<open>Stopping the daemon\<close>

lemma daemon_step_stopping:
  assumes "\<not> go (save_daemon s)"
  shows "stopping (t, s) (daemon_step e (t, s))"
proof (cases "started (save_daemon s)")
  case False
  with assms show ?thesis
    by (auto simp: daemon_step_def stopping_def Let_def)
next
  case True
  show ?thesis
  proof (cases "pc t")
    case AtTest
    with True assms show ?thesis
      by (auto simp: daemon_step_def stopping_def Let_def)
  next
    case (InRound i)
    show ?thesis
    proof (cases "i < length (funcs (save_daemon s))")
      case lt: True
      obtain r s' where cb: "run_callback e (funcs (save_daemon s) ! i) s = (r, s')"
        by (cases "run_callback e (funcs (save_daemon s) ! i) s")
      have "save_daemon s' = save_daemon s"
        using run_callback_fields [of e "funcs (save_daemon s) ! i" s] cb by simp
      with True assms InRound lt cb show ?thesis
        by (auto simp: daemon_step_def stopping_def Let_def)
    next
      case False
      with True assms InRound show ?thesis
        by (auto simp: daemon_step_def stopping_def Let_def)
    qed
  next
    case Sleeping
    with True assms show ?thesis
      by (auto simp: daemon_step_def stopping_def Let_def)
  next
    case Halted
    with True assms show ?thesis
      by (auto simp: daemon_step_def stopping_def Let_def)
  qed
qed

lemma main_step_stopping:
  assumes "\<not> go (save_daemon s)"
  shows "stopping (t, s) (t, exec e c s)"
  using assms exec_daemon [of e c s] by (auto simp: stopping_def Let_def)

lemma step_stopping:
  assumes "\<not> go (save_daemon (snd c))"
  shows "stopping c (step e ev c)"
  using assms daemon_step_stopping [of "snd c" "fst c" e] main_step_stopping [of "snd c" "fst c" e]
  by (cases ev; cases c) simp_all

lemma stopping_refl: "\<not> go (save_daemon (snd c)) \<Longrightarrow> stopping c c"
  by (simp add: stopping_def Let_def)

lemma stopping_trans: "stopping c c1 \<Longrightarrow> stopping c1 c2 \<Longrightarrow> stopping c c2"
  by (auto simp: stopping_def Let_def)

lemma run_schedule_stopping:
  assumes "\<not> go (save_daemon (snd c))"
  shows "stopping c (run_schedule e evs c)"
  using assms
proof (induction evs arbitrary: c)
  case Nil
  then show ?case by (simp add: run_schedule_def stopping_refl)
next
  case (Cons ev evs)
  have 1: "stopping c (step e ev c)"
    using Cons.prems by (rule step_stopping)
  then have "\<not> go (save_daemon (snd (step e ev c)))"
    by (simp add: stopping_def Let_def)
  then have "stopping (step e ev c) (run_schedule e evs (step e ev c))"
    by (rule Cons.IH)
  with 1 have "stopping c (run_schedule e evs (step e ev c))"
    by (rule stopping_trans)
  then show ?case
    by (simp add: run_schedule_def)
qed


lemma daemon_step_progress:
  assumes "\<not> go (save_daemon s)" "started (save_daemon s)"
  shows "steps_left (length (funcs (save_daemon s))) (pc (fst (daemon_step e (t, s))))
           \<le> steps_left (length (funcs (save_daemon s))) (pc t) - 1"
  using assms
  by (cases "pc t") (auto simp: daemon_step_def split: prod.split)

lemma run_schedule_progress:
  assumes "\<not> go (save_daemon (snd c))" "started (save_daemon (snd c))"
  shows "steps_left (length (funcs (save_daemon (snd c)))) (pc (fst (run_schedule e evs c)))
           \<le> steps_left (length (funcs (save_daemon (snd c)))) (pc (fst c)) - ticks evs"
  using assms
proof (induction evs arbitrary: c)
  case Nil
  then show ?case by (simp add: run_schedule_def ticks_def)
next
  case (Cons ev evs)
  let ?n = "length (funcs (save_daemon (snd c)))"
  let ?c = "step e ev c"
  have st: "stopping c ?c"
    using Cons.prems(1) by (rule step_stopping)
  then have inv: "\<not> go (save_daemon (snd ?c))" "started (save_daemon (snd ?c))"
    "funcs (save_daemon (snd ?c)) = funcs (save_daemon (snd c))"
    using Cons.prems(2) by (simp_all add: stopping_def Let_def)
  have ih: "steps_left ?n (pc (fst (run_schedule e evs ?c)))
      \<le> steps_left ?n (pc (fst ?c)) - ticks evs"
    using Cons.IH [OF inv(1,2)] by (simp add: inv(3))
  have one: "steps_left ?n (pc (fst ?c)) \<le> steps_left ?n (pc (fst c)) - (if ev = Tick then 1 else 0)"
  proof (cases ev)
    case Tick
    then show ?thesis
      using daemon_step_progress [of "snd c" e "fst c"] Cons.prems by simp
  next
    case (Main cmd)
    then show ?thesis by simp
  qed
  have "ticks (ev # evs) = (if ev = Tick then 1 else 0) + ticks evs"
    by (simp add: ticks_def)
  moreover have "run_schedule e (ev # evs) c = run_schedule e evs ?c"
    by (simp add: run_schedule_def)
  ultimately show ?case
    using ih one by simp
qed

lemma round_completes:
  assumes "started (save_daemon s)" "pc t = InRound i" "i + k \<le> length (funcs (save_daemon s))"
  shows "pc (fst (run_schedule e (replicate k Tick) (t, s))) = InRound (i + k) \<and>
         calls (fst (run_schedule e (replicate k Tick) (t, s))) = calls t + k"
  using assms
proof (induction k arbitrary: t s i)
  case 0
  then show ?case by (simp add: run_schedule_def)
next
  case (Suc k)
  obtain r s' where cb: "run_callback e (funcs (save_daemon s) ! i) s = (r, s')"
    by (cases "run_callback e (funcs (save_daemon s) ! i) s")
  have sd: "save_daemon s' = save_daemon s"
    using run_callback_fields [of e "funcs (save_daemon s) ! i" s] cb by simp
  let ?t = "t\<lparr>pc := InRound (Suc i), calls := Suc (calls t), printed := printed t @ printed_of r\<rparr>"
  have d: "daemon_step e (t, s) = (?t, s')"
    using Suc.prems cb by (simp add: daemon_step_def)
  have "pc (fst (run_schedule e (replicate k Tick) (?t, s'))) = InRound (Suc i + k) \<and>
      calls (fst (run_schedule e (replicate k Tick) (?t, s'))) = calls ?t + k"
    using Suc.prems sd by (intro Suc.IH) simp_all
  moreover have "run_schedule e (replicate (Suc k) Tick) (t, s) = run_schedule e (replicate k Tick) (?t, s')"
    by (simp add: run_schedule_def d)
  ultimately show ?case by simp
qed

text \<open>
  Claim C6, amended.  Take any configuration in which \<open>go\<close> is cleared (\<^verbatim>\<open>stop_daemon\<close>
  has been called, at whatever control point the daemon thread was), and any continuation:
  steps of the daemon thread interleaved in any order with calls of the main thread.  Then
  the daemon invokes at most one more round of its callbacks and takes at most one more
  sleep; once started it has halted after as many of its own steps as one round, one sleep
  and one test of the flag take, and from \<open>Halted\<close> it does nothing more.  The flag is
  read at the top of the loop only: a round that has begun is completed, so the stop is
  not immediate in general; it is immediate (no further callback, no further sleep) when
  the flag is cleared while the thread is about to test it.  Time is counted in callbacks
  and sleeps.
\<close>

theorem daemon_stops_within_one_round:
  assumes "\<not> go (save_daemon s)"
  shows "calls (fst (run_schedule e evs (t, s))) \<le> calls t + length (funcs (save_daemon s)) \<and>
         sleeps (fst (run_schedule e evs (t, s))) \<le> sleeps t + 1 \<and>
         (started (save_daemon s) \<and> length (funcs (save_daemon s)) + 3 \<le> ticks evs \<longrightarrow>
            pc (fst (run_schedule e evs (t, s))) = Halted) \<and>
         (pc t = Halted \<longrightarrow> fst (run_schedule e evs (t, s)) = t) \<and>
         (pc t = AtTest \<longrightarrow>
            calls (fst (run_schedule e evs (t, s))) = calls t \<and>
            sleeps (fst (run_schedule e evs (t, s))) = sleeps t) \<and>
         (started (save_daemon s) \<and> pc t = InRound 0 \<longrightarrow>
            calls (fst (run_schedule e (replicate (length (funcs (save_daemon s))) Tick) (t, s)))
              = calls t + length (funcs (save_daemon s)))"
proof -
  let ?n = "length (funcs (save_daemon s))"
  let ?t = "fst (run_schedule e evs (t, s))"
  have st: "stopping (t, s) (run_schedule e evs (t, s))"
    using assms by (intro run_schedule_stopping) simp
  then have c: "calls ?t + round_left ?n (pc ?t) = calls t + round_left ?n (pc t)"
    and sl: "sleeps ?t + sleep_left (pc ?t) \<le> sleeps t + sleep_left (pc t)"
    and mono: "calls t \<le> calls ?t" "sleeps t \<le> sleeps ?t"
    and h: "pc t = Halted \<longrightarrow> ?t = t"
    by (simp_all add: stopping_def Let_def)
  have rl: "round_left ?n (pc t) \<le> ?n" and sll: "sleep_left (pc t) \<le> 1"
    by (cases "pc t"; simp)+
  have 1: "calls ?t \<le> calls t + ?n"
    using c rl by linarith
  have 2: "sleeps ?t \<le> sleeps t + 1"
    using sl sll by linarith
  have 3: "pc ?t = Halted" if "started (save_daemon s)" "?n + 3 \<le> ticks evs"
  proof -
    have "steps_left ?n (pc ?t) \<le> steps_left ?n (pc t) - ticks evs"
      using run_schedule_progress [of "(t, s)" e evs] assms that(1) by simp
    moreover have "steps_left ?n (pc t) \<le> ?n + 3"
      by (cases "pc t") simp_all
    ultimately have "steps_left ?n (pc ?t) = 0"
      using that(2) by linarith
    then show ?thesis
      by (cases "pc ?t") simp_all
  qed
  have 5: "calls ?t = calls t \<and> sleeps ?t = sleeps t" if "pc t = AtTest"
    using that c sl mono by simp
  have 6: "calls (fst (run_schedule e (replicate ?n Tick) (t, s))) = calls t + ?n"
    if "started (save_daemon s)" "pc t = InRound 0"
    using round_completes [of s t 0 ?n e] that by simp
  show ?thesis
    apply (intro conjI impI)
    subgoal by (rule 1)
    subgoal by (rule 2)
    subgoal by (elim conjE) (rule 3, assumption+)
    subgoal using h by simp
    subgoal using 5 by simp
    subgoal using 5 by simp
    subgoal by (elim conjE) (rule 6, assumption+)
    done
qed


lemma started0_fields [simp]:
  "save_daemon started0 = \<lparr> go = True, sleep = 15, funcs = [CbSave, CbSaveCaches], started = True \<rparr>"
  "data started0 = []"
  by (simp_all add: started0_def start_save_daemon_def Let_def)

lemma stop_started0 [simp]:
  "save_daemon (stop_daemon started0) =
     \<lparr> go = False, sleep = 15, funcs = [CbSave, CbSaveCaches], started = True \<rparr>"
  "data (stop_daemon started0) = []"
  by (simp_all add: stop_daemon_def)

theorem daemon_stops_within_one_round_witness:
  "\<not> go (save_daemon (stop_daemon started0)) \<and>
   started (save_daemon (stop_daemon started0)) \<and>
   length (funcs (save_daemon (stop_daemon started0))) + 3 \<le> ticks [Tick, Tick, Tick, Tick, Tick] \<and>
   pc (fst (run_schedule env0 [Tick, Tick, Tick, Tick, Tick]
        (thread0\<lparr>pc := InRound 0\<rparr>, stop_daemon started0))) = Halted \<and>
   calls (fst (run_schedule env0 [Tick, Tick, Tick, Tick, Tick]
        (thread0\<lparr>pc := InRound 0\<rparr>, stop_daemon started0))) \<le> 2 \<and>
   calls (fst (run_schedule env0 [Tick, Tick]
        (thread0\<lparr>pc := InRound 0\<rparr>, stop_daemon started0))) = 2"
proof -
  have g: "\<not> go (save_daemon (stop_daemon started0))"
    by simp
  have st: "started (save_daemon (stop_daemon started0))"
    by simp
  have tk: "length (funcs (save_daemon (stop_daemon started0))) + 3 \<le> ticks [Tick, Tick, Tick, Tick, Tick]"
    by (simp add: ticks_def)
  have p: "pc (thread0\<lparr>pc := InRound 0\<rparr>) = InRound 0"
    by simp
  have c0: "calls (thread0\<lparr>pc := InRound 0\<rparr>) = 0"
    by (simp add: thread0_def)
  have r: "replicate (length (funcs (save_daemon (stop_daemon started0)))) Tick = [Tick, Tick]"
    by (simp add: numeral_2_eq_2)
  note t = daemon_stops_within_one_round [OF g, of env0 "[Tick, Tick, Tick, Tick, Tick]"
      "thread0\<lparr>pc := InRound 0\<rparr>"]
  from t have a: "calls (fst (run_schedule env0 [Tick, Tick, Tick, Tick, Tick]
        (thread0\<lparr>pc := InRound 0\<rparr>, stop_daemon started0))) \<le> 2"
    unfolding c0 by simp
  from t st tk have b: "pc (fst (run_schedule env0 [Tick, Tick, Tick, Tick, Tick]
        (thread0\<lparr>pc := InRound 0\<rparr>, stop_daemon started0))) = Halted"
    by blast
  from t st p have "calls (fst (run_schedule env0
        (replicate (length (funcs (save_daemon (stop_daemon started0)))) Tick)
        (thread0\<lparr>pc := InRound 0\<rparr>, stop_daemon started0)))
      = calls (thread0\<lparr>pc := InRound 0\<rparr>) + length (funcs (save_daemon (stop_daemon started0)))"
    by blast
  then have c: "calls (fst (run_schedule env0 [Tick, Tick]
        (thread0\<lparr>pc := InRound 0\<rparr>, stop_daemon started0))) = 2"
    unfolding r c0 by simp
  show ?thesis
    using g st tk a b c by simp
qed

lemma save_nothing [simp]: "data s = [] \<Longrightarrow> save e s = (None, s)" "data s = [] \<Longrightarrow> save_caches e s = (None, s)"
  by (simp_all add: save_def save_caches_def)

text \<open>
  The daemon of the first registry runs one round and one sleep; the flag is then cleared,
  and the next step of the thread halts it: no callback and no sleep after the stop.
\<close>

theorem daemon_halts_at_once_counterexample:
  "pc (fst (run_schedule env0 [Tick, Tick, Tick, Tick, Tick] (thread0, started0))) = AtTest \<and>
   calls (fst (run_schedule env0 [Tick, Tick, Tick, Tick, Tick] (thread0, started0))) = 2 \<and>
   sleeps (fst (run_schedule env0 [Tick, Tick, Tick, Tick, Tick] (thread0, started0))) = 1 \<and>
   pc (fst (run_schedule env0 [Tick, Tick, Tick, Tick, Tick, Main StopDaemon, Tick]
        (thread0, started0))) = Halted \<and>
   calls (fst (run_schedule env0 [Tick, Tick, Tick, Tick, Tick, Main StopDaemon, Tick]
        (thread0, started0))) = 2 \<and>
   sleeps (fst (run_schedule env0 [Tick, Tick, Tick, Tick, Tick, Main StopDaemon, Tick]
        (thread0, started0))) = 1"
  by (simp add: run_schedule_def daemon_step_def thread0_def stop_daemon_def)

section \<open>Eviction in the bounded map container\<close>

lemma lru_hd:
  "sorted_wrt (<) (map stamp sl) \<Longrightarrow> sl \<noteq> [] \<Longrightarrow> arg_min_list stamp sl = hd sl"
proof (cases sl)
  case Nil
  assume "sl \<noteq> []"
  with Nil show ?thesis by simp
next
  case (Cons x rest)
  assume srt: "sorted_wrt (<) (map stamp sl)"
  show ?thesis
  proof (cases rest)
    case Nil
    with Cons show ?thesis by simp
  next
    case (Cons y zs)
    have "arg_min_list stamp (y # zs) \<in> set (y # zs)"
      by (rule arg_min_list_in) simp
    then have "stamp x < stamp (arg_min_list stamp (y # zs))"
      using srt \<open>sl = x # rest\<close> Cons by auto
    then show ?thesis
      using \<open>sl = x # rest\<close> Cons by (simp add: Let_def)
  qed
qed

lemma evict_tl:
  assumes "ei_inv c" "slots c \<noteq> []"
  shows "evict c = tl (slots c)"
proof -
  obtain x rest where sl: "slots c = x # rest"
    using assms(2) by (cases "slots c") auto
  have "lru_key c = Some (fst x)"
    using assms lru_hd [of "slots c"] sl by (simp add: lru_key_def ei_inv_def)
  moreover have "fst x \<notin> fst ` set rest"
    using assms(1) sl by (simp add: ei_inv_def ei_keys_def)
  then have "\<forall>s \<in> set rest. fst s \<noteq> fst x"
    by (metis image_eqI)
  then have "filter (\<lambda>s. fst s \<noteq> fst x) rest = rest"
    by (simp add: filter_id_conv)
  ultimately show ?thesis
    by (simp add: evict_def sl)
qed

lemma keys_put:
  assumes "ei_inv c"
  shows "ei_keys (ei_put k v c) =
     (if k \<in> set (ei_keys c) then filter (\<lambda>x. x \<noteq> k) (ei_keys c) @ [k]
      else if length (ei_keys c) < max_entries c then ei_keys c @ [k]
      else tl (ei_keys c) @ [k])"
proof -
  have "slots c \<noteq> []" if "\<not> length (slots c) < max_entries c"
    using that assms by (auto simp: ei_inv_def)
  then show ?thesis
    using assms
    by (auto simp: ei_put_def ei_keys_def Let_def evict_tl filter_map comp_def map_tl)
qed


lemma kept_sorted:
  assumes "ei_inv c"
  shows "sorted_wrt (<) (map stamp (filter P (slots c) @ [(k, v, clock c)])) \<and>
         list_all (\<lambda>sl. stamp sl < Suc (clock c)) (filter P (slots c) @ [(k, v, clock c)])"
proof -
  have s: "sorted_wrt (\<lambda>x y. stamp x < stamp y) (slots c)"
    and b: "\<forall>sl \<in> set (slots c). stamp sl < clock c"
    using assms by (simp_all add: ei_inv_def sorted_wrt_map list_all_iff)
  have "sorted_wrt (\<lambda>x y. stamp x < stamp y) (filter P (slots c))"
    using s by (rule sorted_wrt_filter)
  then show ?thesis
    using b by (auto simp: sorted_wrt_map sorted_wrt_append list_all_iff stamp_def less_Suc_eq)
qed

lemma put_kept:
  "\<exists>P. slots (ei_put k v c) = filter P (slots c) @ [(k, v, clock c)]"
proof -
  have "slots c = filter (\<lambda>_. True) (slots c)"
    by simp
  then show ?thesis
    unfolding ei_put_def Let_def evict_def
    by (auto intro: exI [of _ "\<lambda>_. True"])
qed

lemma length_keys [simp]: "length (ei_keys c) = length (slots c)"
  by (simp add: ei_keys_def)

lemma ei_put_fields [simp]:
  "max_entries (ei_put k v c) = max_entries c" "clock (ei_put k v c) = Suc (clock c)"
  by (simp_all add: ei_put_def Let_def)

lemma inv_put:
  assumes "ei_inv c"
  shows "ei_inv (ei_put k v c)"
proof -
  obtain P where P: "slots (ei_put k v c) = filter P (slots c) @ [(k, v, clock c)]"
    using put_kept by blast
  have d: "distinct (ei_keys c)" and l: "length (ei_keys c) \<le> max_entries c"
    and n: "0 < max_entries c"
    using assms by (simp_all add: ei_inv_def)
  have ne: "ei_keys c \<noteq> []" if "\<not> length (ei_keys c) < max_entries c"
    using that n by (auto simp: ei_keys_def)
  have "length (filter (\<lambda>x. x \<noteq> k) (ei_keys c)) < length (ei_keys c)" if "k \<in> set (ei_keys c)"
    using that by (intro length_filter_less [of k]) simp_all
  then have len: "length (ei_keys (ei_put k v c)) \<le> max_entries c"
    using l ne n by (auto simp: keys_put [OF assms])
  have tlD: "x \<in> set xs" if "x \<in> set (tl xs)" for x :: pyval and xs
    using that by (cases xs) simp_all
  have dis: "distinct (ei_keys (ei_put k v c))"
    using d by (auto simp: keys_put [OF assms] distinct_tl dest: tlD)
  show ?thesis
    using kept_sorted [OF assms, of P k v] len dis n
    by (simp add: ei_inv_def P [symmetric])
qed

lemma inv_get:
  assumes "ei_inv c"
  shows "ei_inv (snd (ei_get k c))"
proof (cases "map_of (slots c) k")
  case None
  with assms show ?thesis by (simp add: ei_get_def)
next
  case (Some vt)
  obtain v t where vt: "vt = (v, t)" by (cases vt)
  let ?c = "c\<lparr>slots := filter (\<lambda>sl. fst sl \<noteq> k) (slots c) @ [(k, v, clock c)], clock := Suc (clock c)\<rparr>"
  have g: "snd (ei_get k c) = ?c"
    using Some vt by (simp add: ei_get_def)
  have k: "k \<in> set (ei_keys c)"
    using Some by (auto simp: ei_keys_def dest: map_of_SomeD intro: rev_image_eqI)
  have d: "distinct (ei_keys c)" and l: "length (slots c) \<le> max_entries c"
    and n: "0 < max_entries c"
    using assms by (simp_all add: ei_inv_def)
  have "length (filter (\<lambda>x. x \<noteq> k) (ei_keys c)) < length (ei_keys c)"
    using k by (intro length_filter_less [of k]) simp_all
  then have len: "length (filter (\<lambda>sl. fst sl \<noteq> k) (slots c)) < length (slots c)"
    by (simp add: ei_keys_def filter_map comp_def)
  have dis: "distinct (map fst (filter (\<lambda>sl. fst sl \<noteq> k) (slots c)) @ [k])"
    using d by (auto simp: ei_keys_def distinct_map_filter)
  show ?thesis
    unfolding g
    using kept_sorted [OF assms, of "\<lambda>sl. fst sl \<noteq> k" k v] len dis n l
    by (simp add: ei_inv_def ei_keys_def)
qed

lemma inv_empty: "0 < n \<Longrightarrow> ei_inv (ei_empty n)"
  by (simp add: ei_inv_def ei_empty_def ei_keys_def)

lemma insert_all_snoc:
  "ei_insert_all (kvs @ [kv]) c = ei_put (fst kv) (snd kv) (ei_insert_all kvs c)"
  by (simp add: ei_insert_all_def)

lemma insert_suffix:
  assumes "ei_inv c" "distinct (map fst kvs)" "length kvs \<le> max_entries c"
  shows "ei_inv (ei_insert_all kvs c) \<and> max_entries (ei_insert_all kvs c) = max_entries c \<and>
         (\<exists>older. ei_keys (ei_insert_all kvs c) = older @ map fst kvs)"
  using assms(2,3)
proof (induction kvs rule: rev_induct)
  case Nil
  with assms(1) show ?case by (simp add: ei_insert_all_def)
next
  case (snoc kv kvs)
  let ?c = "ei_insert_all kvs c"
  let ?ks = "map fst kvs"
  let ?k = "fst kv"
  from snoc have inv: "ei_inv ?c" and mx: "max_entries ?c = max_entries c"
    and ex: "\<exists>older. ei_keys ?c = older @ ?ks"
    by simp_all
  from ex obtain older where older: "ei_keys ?c = older @ ?ks" ..
  have fresh: "?k \<notin> set ?ks" and short: "length ?ks < max_entries c"
    using snoc.prems by simp_all
  have "\<forall>x \<in> set ?ks. x \<noteq> ?k"
    using fresh by blast
  then have f: "filter (\<lambda>x. x \<noteq> ?k) ?ks = ?ks"
    by (simp only: filter_id_conv)
  have "\<exists>older'. ei_keys (ei_put ?k (snd kv) ?c) = older' @ ?ks @ [?k]"
  proof (cases "?k \<in> set (ei_keys ?c)")
    case True
    then show ?thesis
      by (simp add: keys_put [OF inv] older f)
  next
    case False
    show ?thesis
    proof (cases "length (ei_keys ?c) < max_entries ?c")
      case True
      with False show ?thesis
        by (simp add: keys_put [OF inv] older)
    next
      case full: False
      then have "older \<noteq> []"
        using short older mx by (metis append_Nil length_map)
      then have "tl (older @ ?ks) = tl older @ ?ks"
        by simp
      with False full show ?thesis
        by (simp add: keys_put [OF inv] older)
    qed
  qed
  then show ?case
    using inv_put [OF inv] mx by (simp add: insert_all_snoc)
qed


lemma put_full_fresh:
  assumes "ei_inv c" "length (slots c) = max_entries c" "k \<notin> set (ei_keys c)"
  shows "\<exists>x \<in> set (slots c). lru_key c = Some (fst x) \<and> (\<forall>sl \<in> set (slots c). stamp x \<le> stamp sl) \<and>
           ei_keys (ei_put k v c) = filter (\<lambda>y. y \<noteq> fst x) (ei_keys c) @ [k]"
proof -
  have ne: "slots c \<noteq> []"
    using assms(1,2) by (auto simp: ei_inv_def)
  let ?x = "arg_min_list stamp (slots c)"
  have x: "?x \<in> set (slots c)"
    using ne by (rule arg_min_list_in)
  have "stamp ?x = Min (stamp ` set (slots c))"
    using ne by (rule f_arg_min_list_f)
  then have m: "\<forall>sl \<in> set (slots c). stamp ?x \<le> stamp sl"
    by simp
  have l: "lru_key c = Some (fst ?x)"
    using ne by (simp add: lru_key_def)
  have "filter (\<lambda>sl. fst sl \<noteq> fst ?x) (slots c) = evict c"
    by (simp add: evict_def l)
  then have "map fst (evict c) = filter (\<lambda>y. y \<noteq> fst ?x) (ei_keys c)"
    by (simp add: ei_keys_def filter_map comp_def)
  moreover have "ei_keys (ei_put k v c) = map fst (evict c) @ [k]"
    using assms(2,3) by (simp add: ei_put_def ei_keys_def Let_def)
  ultimately show ?thesis
    using x m l by auto
qed

text \<open>
  Claim C9 (on the container as modelled from the spec).  A map container with a capacity
  of \<open>N \<ge> 1\<close> entries, in any state it can reach, into which \<open>N + 1\<close> distinct keys are
  inserted, holds exactly \<open>N\<close> keys afterwards: the last \<open>N\<close> inserted.  The key inserted
  first, the least recently used of them, is the absent one.  The eviction is done by
  \<open>ei_put\<close> itself: when the container is full and the key is new, \<open>ei_put\<close> removes the
  entry whose last use (insertion or lookup) is the oldest and admits the new one.  The
  invariant holds for the empty container and is kept by every insertion and lookup.
\<close>

theorem evicting_index_evicts_lru:
  assumes "ei_inv c" and "distinct (map fst kvs)" and "length kvs = max_entries c + 1"
  shows "ei_keys (ei_insert_all kvs c) = tl (map fst kvs) \<and>
         length (ei_keys (ei_insert_all kvs c)) = max_entries c \<and>
         distinct (ei_keys (ei_insert_all kvs c)) \<and>
         fst (hd kvs) \<notin> set (ei_keys (ei_insert_all kvs c)) \<and>
         ei_inv (ei_insert_all kvs c) \<and>
         (\<forall>k v. length (slots c) = max_entries c \<and> k \<notin> set (ei_keys c) \<longrightarrow>
            (\<exists>x \<in> set (slots c). lru_key c = Some (fst x) \<and>
               (\<forall>sl \<in> set (slots c). stamp x \<le> stamp sl) \<and>
               ei_keys (ei_put k v c) = filter (\<lambda>y. y \<noteq> fst x) (ei_keys c) @ [k])) \<and>
         (\<forall>k v. ei_inv (ei_put k v c) \<and> ei_inv (snd (ei_get k c)))"
proof -
  let ?N = "max_entries c"
  have ne: "kvs \<noteq> []"
    using assms(3) by auto
  let ?kvs0 = "butlast kvs" and ?kv = "last kvs"
  have sp: "kvs = ?kvs0 @ [?kv]"
    using ne by simp
  have d0: "distinct (map fst ?kvs0)" and l0: "length ?kvs0 = ?N"
    and fresh: "fst ?kv \<notin> set (map fst ?kvs0)"
    using assms(2,3) sp by (metis distinct_butlast map_butlast, simp,
        metis (no_types, lifting) distinct.simps(2) distinct1_rotate list.simps(8,9) map_append
          rotate1.simps(2))
  let ?c = "ei_insert_all ?kvs0 c"
  have "ei_inv ?c \<and> max_entries ?c = ?N \<and> (\<exists>older. ei_keys ?c = older @ map fst ?kvs0)"
    using assms(1) d0 l0 by (intro insert_suffix) simp_all
  then obtain older where inv: "ei_inv ?c" and mx: "max_entries ?c = ?N"
    and older: "ei_keys ?c = older @ map fst ?kvs0"
    by blast
  have "length (ei_keys ?c) \<le> ?N"
    using inv mx by (simp add: ei_inv_def)
  then have "older = []"
    using older l0 by (metis add_le_same_cancel2 le_zero_eq length_0_conv length_append length_map)
  then have keys0: "ei_keys ?c = map fst ?kvs0"
    using older by simp
  have N: "0 < ?N"
    using assms(1) by (simp add: ei_inv_def)
  have ne0: "map fst ?kvs0 \<noteq> []"
  proof
    assume "map fst ?kvs0 = []"
    then have "length ?kvs0 = 0"
      by (simp only: map_is_Nil_conv list.size)
    with l0 N show False
      by simp
  qed
  have "ei_keys (ei_put (fst ?kv) (snd ?kv) ?c) = tl (map fst ?kvs0) @ [fst ?kv]"
    using fresh l0 mx by (simp add: keys_put [OF inv] keys0)
  also have "\<dots> = tl (map fst ?kvs0 @ [fst ?kv])"
    using ne0 by simp
  also have "map fst ?kvs0 @ [fst ?kv] = map fst kvs"
    using sp by (metis list.simps(8,9) map_append)
  finally have keys: "ei_keys (ei_put (fst ?kv) (snd ?kv) ?c) = tl (map fst kvs)" .
  have ins: "ei_insert_all kvs c = ei_put (fst ?kv) (snd ?kv) ?c"
    using insert_all_snoc [of ?kvs0 ?kv c] sp by simp
  have 1: "ei_keys (ei_insert_all kvs c) = tl (map fst kvs)"
    using keys ins by simp
  have 2: "length (ei_keys (ei_insert_all kvs c)) = ?N"
    unfolding 1 using assms(3) by simp
  have 3: "distinct (ei_keys (ei_insert_all kvs c))"
    unfolding 1 using assms(2) by (rule distinct_tl)
  have "hd (map fst kvs) \<notin> set (tl (map fst kvs))"
    using assms(2) ne by (cases kvs) simp_all
  then have 4: "fst (hd kvs) \<notin> set (ei_keys (ei_insert_all kvs c))"
    unfolding 1 using ne by (simp add: hd_map)
  have 5: "ei_inv (ei_insert_all kvs c)"
    unfolding ins using inv by (rule inv_put)
  have 6: "\<forall>k v. length (slots c) = max_entries c \<and> k \<notin> set (ei_keys c) \<longrightarrow>
            (\<exists>x \<in> set (slots c). lru_key c = Some (fst x) \<and>
               (\<forall>sl \<in> set (slots c). stamp x \<le> stamp sl) \<and>
               ei_keys (ei_put k v c) = filter (\<lambda>y. y \<noteq> fst x) (ei_keys c) @ [k])"
    using put_full_fresh [OF assms(1)] by blast
  have 7: "\<forall>k v. ei_inv (ei_put k v c) \<and> ei_inv (snd (ei_get k c))"
    using inv_put [OF assms(1)] inv_get [OF assms(1)] by blast
  show ?thesis
    using 1 2 3 4 5 6 7 by (intro conjI)
qed


theorem evicting_index_evicts_lru_witness:
  "ei_inv (ei_empty 2) \<and>
   distinct (map fst [(PStr ''a'', PInt 1), (PStr ''b'', PInt 2), (PStr ''c'', PInt 3)]) \<and>
   length [(PStr ''a'', PInt 1), (PStr ''b'', PInt 2), (PStr ''c'', PInt 3)]
     = max_entries (ei_empty 2) + 1 \<and>
   ei_keys (ei_insert_all [(PStr ''a'', PInt 1), (PStr ''b'', PInt 2), (PStr ''c'', PInt 3)]
      (ei_empty 2)) = [PStr ''b'', PStr ''c''] \<and>
   ei_keys (ei_put (PStr ''c'') (PInt 3)
      (snd (ei_get (PStr ''a'')
         (ei_insert_all [(PStr ''a'', PInt 1), (PStr ''b'', PInt 2)] (ei_empty 2)))))
     = [PStr ''a'', PStr ''c'']"
proof -
  have i: "ei_inv (ei_empty 2)"
    by (rule inv_empty) simp
  have d: "distinct (map fst [(PStr ''a'', PInt 1), (PStr ''b'', PInt 2), (PStr ''c'', PInt 3)])"
    by simp
  have l: "length [(PStr ''a'', PInt 1), (PStr ''b'', PInt 2), (PStr ''c'', PInt 3)]
      = max_entries (ei_empty 2) + 1"
    by (simp add: ei_empty_def)
  have k: "ei_keys (ei_insert_all [(PStr ''a'', PInt 1), (PStr ''b'', PInt 2), (PStr ''c'', PInt 3)]
      (ei_empty 2)) = [PStr ''b'', PStr ''c'']"
    using evicting_index_evicts_lru [OF i d l, THEN conjunct1] by simp
  have g: "ei_keys (ei_put (PStr ''c'') (PInt 3)
      (snd (ei_get (PStr ''a'')
         (ei_insert_all [(PStr ''a'', PInt 1), (PStr ''b'', PInt 2)] (ei_empty 2)))))
     = [PStr ''a'', PStr ''c'']"
    by (simp add: ei_insert_all_def ei_put_def ei_get_def ei_empty_def ei_keys_def Let_def
          evict_def lru_key_def stamp_def)
  show ?thesis
    using i d l k g by simp
qed

end
